theory Spec2Isabelle
  imports Complex_Main "HOL-Library.AList"
begin

section \<open>Python values shared by the models\<close>

text \<open>
  Exceptions of the Python sources are values: every function that can raise returns
  \<open>py_error + 'a\<close>, with \<open>Inl\<close> for the exception.
\<close>

datatype py_error = KeyError string | IndexError | AttributeError string

text \<open>\<open>d[k]\<close> on a dict: the value, or \<open>KeyError\<close>.\<close>

definition getitem :: "(string \<rightharpoonup> 'v) \<Rightarrow> string \<Rightarrow> py_error + 'v" where
  "getitem d k = (case d k of None \<Rightarrow> Inl (KeyError k) | Some v \<Rightarrow> Inr v)"

text \<open>Sequencing of two computations that can raise.\<close>

definition bind_err :: "py_error + 'a \<Rightarrow> ('a \<Rightarrow> py_error + 'b) \<Rightarrow> py_error + 'b" where
  "bind_err m f = (case m of Inl e \<Rightarrow> Inl e | Inr v \<Rightarrow> f v)"

section \<open>Lithium-ion base model: \<open>base_lithium_ion_model.py\<close>\<close>

subsection \<open>\<open>default_parameter_values\<close>\<close>

datatype parameter_values = ParameterValues string

text \<open>
  The property compares \<open>self.whole_cell_domains\<close> with a list of three strings and
  builds one of two parameter sets.
\<close>

definition default_parameter_values :: "string list \<Rightarrow> parameter_values" where
  "default_parameter_values whole_cell_domains =
     (if whole_cell_domains = [''negative electrode'', ''separator'', ''positive electrode'']
      then ParameterValues ''Marquis2019''
      else ParameterValues ''Xu2019'')"

subsection \<open>Strings\<close>

text \<open>
  Strings are lists of 8-bit characters, the code points 0 to 255 (Latin-1).
  \<open>str.lower()\<close> maps \<open>A\<close>..\<open>Z\<close> to \<open>a\<close>..\<open>z\<close> and the capital letters
  U+00C0..U+00DE (all but the multiplication sign U+00D7) to the letters 32 places
  further; every other character of the range is its own lower case.
  \<open>str.split()\<close> cuts at runs of white space: tab, line feed, vertical tab, form feed,
  carriage return (9..13), the four separators 0x1C..0x1F, the space, the next-line
  character U+0085 and the no-break space U+00A0. \<open>s.split()[0]\<close> raises \<open>IndexError\<close>
  when \<open>s\<close> holds no other character.
\<close>

definition lower_char :: "char \<Rightarrow> char" where
  "lower_char c =
     (let n = (of_char c :: nat)
      in if (65 \<le> n \<and> n \<le> 90) \<or> (192 \<le> n \<and> n \<le> 222 \<and> n \<noteq> 215)
         then char_of (n + 32) else c)"

definition lower :: "string \<Rightarrow> string" where
  "lower s = map lower_char s"

definition is_space :: "char \<Rightarrow> bool" where
  "is_space c =
     (let n = (of_char c :: nat)
      in (9 \<le> n \<and> n \<le> 13) \<or> (28 \<le> n \<and> n \<le> 32) \<or> n = 133 \<or> n = 160)"

definition split_first :: "string \<Rightarrow> py_error + string" where
  "split_first s =
     (case dropWhile is_space s of
        [] \<Rightarrow> Inl IndexError
      | c # cs \<Rightarrow> Inr (takeWhile (\<lambda>x. \<not> is_space x) (c # cs)))"

subsection \<open>Expression tree, options, parameters\<close>

text \<open>
  Modelled from the spec: the expression tree. \<open>pybamm.Symbol\<close>, its subclasses and its
  overloaded arithmetic operators are not among the sources; following the spec
  (expression nodes are immutable, have children, and operators are kept as unevaluated
  nodes) an expression is a tree, \<open>a + b\<close> builds \<open>Addition a b\<close>, and a Python number
  met by an operator is wrapped into \<open>Scalar\<close>.
\<close>

datatype symbol =
    Scalar int
  | Parameter string
  | Variable string
  | Addition symbol symbol
  | Subtraction symbol symbol
  | Multiplication symbol symbol
  | Division symbol symbol
  | FullBroadcast symbol string string

text \<open>
  \<open>self.options\<close>: the dict of option values (\<open>self.options["SEI"]\<close>) and the
  attributes \<open>electrode_types\<close>, \<open>phases\<close> and \<open>whole_cell_domains\<close> the sources read.
\<close>

record battery_options =
  entries :: "string \<rightharpoonup> string"
  electrode_types :: "string \<rightharpoonup> string"
  phases :: "string \<rightharpoonup> string list"
  whole_cell_domains :: "string list"

text \<open>
  \<open>self.param\<close>: the dict \<open>domain_params\<close>, the attributes reached by
  \<open>getattr(self.param, name)\<close> (\<open>param.n\<close>, \<open>param.p\<close>) as the map \<open>attrs\<close>, and the
  scalar parameters \<open>set_degradation_variables\<close> reads.
\<close>

record domain_parameters =
  epsilon_init :: symbol
  cap_init :: symbol

record lithium_ion_parameters =
  domain_params :: "string \<rightharpoonup> domain_parameters"
  attrs :: "string \<rightharpoonup> domain_parameters"
  n_Li_particles_init :: symbol
  n_Li_init :: symbol
  n_Li_e_init :: symbol
  F :: symbol

definition getattr :: "lithium_ion_parameters \<Rightarrow> string \<Rightarrow> py_error + domain_parameters" where
  "getattr p name = (case attrs p name of None \<Rightarrow> Inl (AttributeError name) | Some v \<Rightarrow> Inr v)"

subsection \<open>Submodels and the model\<close>

text \<open>
  The submodel classes the sources instantiate, each with the arguments of its call:
  the parameters, the options, and the keyword \<open>cracks\<close> (\<open>None\<close> where the call does not
  pass it), the reaction location, or \<open>x_average\<close>.
\<close>

datatype submodel =
    NoSEI lithium_ion_parameters battery_options "bool option"
  | ConstantSEI lithium_ion_parameters battery_options
  | SEIGrowth lithium_ion_parameters string battery_options bool
  | Porosity_Constant lithium_ion_parameters battery_options
  | ReactionDriven lithium_ion_parameters battery_options bool

text \<open>
  The model: \<open>self.submodels\<close> is an insertion-ordered dict (an association list with
  distinct keys, \<open>d[k] = v\<close> being \<open>AList.update\<close>), \<open>self.variables\<close> a dict of expressions.
\<close>

record model =
  options :: battery_options
  param :: lithium_ion_parameters
  submodels :: "(string \<times> submodel) list"
  variables :: "string \<rightharpoonup> symbol"

subsection \<open>\<open>set_sei_submodel\<close>\<close>

text \<open>
  The option \<open>"SEI"\<close> is read several times by the source; a dict lookup has no effect,
  so the model reads it once. The conditions keep the source's short-circuit order, which
  decides the lookups that can raise.
\<close>

definition set_sei_submodel :: "model \<Rightarrow> py_error + model" where
  "set_sei_submodel self =
     bind_err (getitem (electrode_types (options self)) ''negative'') (\<lambda>et.
     bind_err
       (if et = ''planar'' then Inr ''interface''
        else bind_err (getitem (entries (options self)) ''x-average side reactions'') (\<lambda>xa.
          Inr (if xa = ''true'' then ''x-average'' else ''full electrode'')))
       (\<lambda>reaction_loc.
     bind_err (getitem (entries (options self)) ''SEI'') (\<lambda>sei.
     let self1 = self\<lparr>submodels := AList.update ''sei''
           (if sei = ''none'' then NoSEI (param self) (options self) None
            else if sei = ''constant'' then ConstantSEI (param self) (options self)
            else SEIGrowth (param self) reaction_loc (options self) False)
           (submodels self)\<rparr>
     in if reaction_loc \<noteq> ''interface'' then
          bind_err
            (if sei \<in> set [''none'', ''constant''] then Inr True
             else bind_err (getitem (entries (options self)) ''SEI on cracks'') (\<lambda>c.
               Inr (c = ''false'')))
            (\<lambda>no_cracks.
              Inr (self1\<lparr>submodels := AList.update ''sei on cracks''
                (if no_cracks then NoSEI (param self) (options self) (Some True)
                 else SEIGrowth (param self) reaction_loc (options self) True)
                (submodels self1)\<rparr>))
        else Inr self1)))"

subsection \<open>\<open>set_porosity_submodel\<close>\<close>

definition set_porosity_submodel :: "model \<Rightarrow> py_error + model" where
  "set_porosity_submodel self =
     bind_err (getitem (entries (options self)) ''SEI porosity change'') (\<lambda>sei_por.
     bind_err
       (if sei_por = ''false'' then
          bind_err (getitem (entries (options self)) ''lithium plating porosity change'')
            (\<lambda>pl_por. Inr (pl_por = ''false''))
        else Inr False)
       (\<lambda>both_false.
     if both_false then
       Inr (self\<lparr>submodels := AList.update ''porosity''
              (Porosity_Constant (param self) (options self)) (submodels self)\<rparr>)
     else
       bind_err
         (if sei_por = ''true'' then Inr True
          else bind_err (getitem (entries (options self)) ''lithium plating porosity change'')
            (\<lambda>pl_por. Inr (pl_por = ''true'')))
         (\<lambda>some_true.
       if some_true then
         bind_err (getitem (entries (options self)) ''x-average side reactions'') (\<lambda>xa.
           Inr (self\<lparr>submodels := AList.update ''porosity''
                  (ReactionDriven (param self) (options self) (xa = ''true''))
                  (submodels self)\<rparr>))
       else Inr self)))"

subsection \<open>\<open>set_degradation_variables\<close>\<close>

text \<open>
  \<open>sum(...)\<close> over a generator of dict lookups: the lookups run in order (each can raise
  \<open>KeyError\<close>), and the values are added from the left, starting from the number 0.
\<close>

fun lookup_all :: "(string \<rightharpoonup> symbol) \<Rightarrow> string list \<Rightarrow> py_error + symbol list" where
  "lookup_all vars [] = Inr []"
| "lookup_all vars (k # ks) =
     bind_err (getitem vars k) (\<lambda>v.
     bind_err (lookup_all vars ks) (\<lambda>vs. Inr (v # vs)))"

definition py_sum :: "symbol list \<Rightarrow> symbol" where
  "py_sum xs = foldl Addition (Scalar 0) xs"

text \<open>\<open>s[0]\<close> on a string.\<close>

definition first_char :: "string \<Rightarrow> py_error + char" where
  "first_char s = (case s of [] \<Rightarrow> Inl IndexError | c # _ \<Rightarrow> Inr c)"

text \<open>The body of the loop \<open>for Domain in domains\<close>, on the dict \<open>self.variables\<close>
  (the loop variable is written \<open>Domain'\<close>).\<close>

definition degradation_step :: "battery_options \<Rightarrow> lithium_ion_parameters \<Rightarrow>
    (string \<rightharpoonup> symbol) \<Rightarrow> string \<Rightarrow> py_error + (string \<rightharpoonup> symbol)" where
  "degradation_step opts p vars Domain' =
     (let domain = lower Domain' in
      bind_err (split_first domain) (\<lambda>w.
      bind_err (getitem (phases opts) w) (\<lambda>phs.
      bind_err (lookup_all vars
          (map (\<lambda>phase. ''Total lithium in '' @ phase @ '' phase in '' @ domain @ '' [mol]'')
             phs)) (\<lambda>terms.
      let vars1 = vars(''Total lithium in '' @ domain @ '' [mol]'' \<mapsto> py_sum terms) in
      bind_err (getitem vars1 (Domain' @ '' capacity [A.h]'')) (\<lambda>C_k.
      bind_err (getitem vars1 (''Total lithium in '' @ domain @ '' [mol]'')) (\<lambda>n_Li_k.
      bind_err (first_char domain) (\<lambda>d0.
      bind_err (getattr p [d0]) (\<lambda>domain_param.
      let LAM_k = Multiplication
            (Subtraction (Scalar 1) (Division C_k (cap_init domain_param))) (Scalar 100)
      in Inr (vars1(''LAM_'' @ [d0] @ ''e [%]'' \<mapsto> LAM_k,
                    ''Loss of active material in '' @ domain @ '' [%]'' \<mapsto> LAM_k))))))))))"

fun degradation_loop :: "battery_options \<Rightarrow> lithium_ion_parameters \<Rightarrow>
    (string \<rightharpoonup> symbol) \<Rightarrow> string list \<Rightarrow> py_error + (string \<rightharpoonup> symbol)" where
  "degradation_loop opts p vars [] = Inr vars"
| "degradation_loop opts p vars (Domain' # rest) =
     bind_err (degradation_step opts p vars Domain') (\<lambda>vars1.
       degradation_loop opts p vars1 rest)"

definition set_degradation_variables :: "model \<Rightarrow> py_error + model" where
  "set_degradation_variables self =
     (let p = param self;
          domains = filter (\<lambda>d. d \<noteq> ''Separator'') (whole_cell_domains (options self))
      in
      bind_err (degradation_loop (options self) p (variables self) domains) (\<lambda>vars1.
      bind_err (getitem vars1 ''Total lithium in electrolyte [mol]'') (\<lambda>n_Li_e.
      bind_err (lookup_all vars1
          (map (\<lambda>domain. ''Total lithium in '' @ lower domain @ '' [mol]'') domains))
        (\<lambda>terms.
      let n_Li_particles = py_sum terms;
          n_Li = Addition n_Li_particles n_Li_e;
          LLI = Multiplication
            (Subtraction (Scalar 1) (Division n_Li_particles (n_Li_particles_init p)))
            (Scalar 100);
          LLI_tot = Multiplication
            (Subtraction (Scalar 1) (Division n_Li (n_Li_init p))) (Scalar 100);
          vars2 = vars1(
            ''LLI [%]'' \<mapsto> LLI,
            ''Loss of lithium inventory [%]'' \<mapsto> LLI,
            ''Loss of lithium inventory, including electrolyte [%]'' \<mapsto> LLI_tot,
            ''Total lithium [mol]'' \<mapsto> n_Li,
            ''Total lithium in particles [mol]'' \<mapsto> n_Li_particles,
            ''Total lithium lost [mol]'' \<mapsto> Subtraction (n_Li_init p) n_Li,
            ''Total lithium lost from particles [mol]'' \<mapsto>
               Subtraction (n_Li_particles_init p) n_Li_particles,
            ''Total lithium lost from electrolyte [mol]'' \<mapsto>
               Subtraction (n_Li_e_init p) n_Li_e)
      in
      bind_err (getitem vars2 ''Loss of lithium to SEI [mol]'') (\<lambda>LLI_sei.
      bind_err
        (if ''Negative electrode'' \<in> set domains then
           bind_err (getitem vars2 ''Loss of lithium to SEI on cracks [mol]'')
             (\<lambda>LLI_sei_cracks.
           bind_err (getitem vars2 ''Loss of lithium to lithium plating [mol]'') (\<lambda>LLI_pl.
             Inr (Addition LLI_sei (Addition LLI_sei_cracks LLI_pl))))
         else Inr LLI_sei)
        (\<lambda>LLI_reactions.
      Inr (self\<lparr>variables := vars2(
            ''Total lithium lost to side reactions [mol]'' \<mapsto> LLI_reactions,
            ''Total capacity lost to side reactions [A.h]'' \<mapsto>
               Division (Multiplication LLI_reactions (F p)) (Scalar 3600))\<rparr>)))))))"

section \<open>Constant porosity submodel: \<open>constant_porosity.py\<close>\<close>

text \<open>
  The two dict comprehensions of \<open>Constant.get_fundamental_variables\<close>, as loops over
  \<open>whole_cell_domains\<close> that store one entry per domain (a later equal key overwrites).
\<close>

fun eps_dict :: "lithium_ion_parameters \<Rightarrow> (string \<rightharpoonup> symbol) \<Rightarrow> string list
    \<Rightarrow> py_error + (string \<rightharpoonup> symbol)" where
  "eps_dict p acc [] = Inr acc"
| "eps_dict p acc (domain # rest) =
     bind_err (split_first domain) (\<lambda>w.
     bind_err (getitem (domain_params p) w) (\<lambda>dp.
       eps_dict p (acc(domain \<mapsto> epsilon_init dp)) rest))"

fun depsdt_dict :: "(string \<rightharpoonup> symbol) \<Rightarrow> string list \<Rightarrow> (string \<rightharpoonup> symbol)" where
  "depsdt_dict acc [] = acc"
| "depsdt_dict acc (domain # rest) =
     depsdt_dict (acc(domain \<mapsto> FullBroadcast (Scalar 0) domain ''current collector'')) rest"

text \<open>
  \<open>get_fundamental_variables\<close>. The helpers \<open>_get_standard_porosity_variables\<close> and
  \<open>_get_standard_porosity_change_variables\<close> are methods of the base class, which is not
  among the sources: they are the parameters \<open>std_porosity\<close> and \<open>std_change\<close>, each
  taking the dict and the flag \<open>set_leading_order\<close>. \<open>variables.update(d)\<close> is \<open>++\<close>.
\<close>

definition get_fundamental_variables ::
  "((string \<rightharpoonup> symbol) \<Rightarrow> bool \<Rightarrow> (string \<rightharpoonup> symbol)) \<Rightarrow>
   ((string \<rightharpoonup> symbol) \<Rightarrow> bool \<Rightarrow> (string \<rightharpoonup> symbol)) \<Rightarrow>
   submodel \<Rightarrow> py_error + (string \<rightharpoonup> symbol)" where
  "get_fundamental_variables std_porosity std_change self =
     (case self of
        Porosity_Constant p opts \<Rightarrow>
          bind_err (eps_dict p Map.empty (whole_cell_domains opts)) (\<lambda>eps.
            let depsdt = depsdt_dict Map.empty (whole_cell_domains opts);
                vars = std_porosity eps True
            in Inr (vars ++ std_change depsdt True))
      | _ \<Rightarrow> Inl (AttributeError ''get_fundamental_variables''))"

text \<open>
  What a helper of the base class does with the dict it is given is not in the sources.
  The output variables of the submodel are those the helper stores, so a statement about
  them says what it takes of the helper: \<open>publishes helper name_of\<close> holds when the
  helper stores the entry of every domain \<open>k\<close> of the dict, unchanged, as the variable
  \<open>name_of k\<close> (whatever else it stores).
\<close>

definition publishes ::
  "((string \<rightharpoonup> symbol) \<Rightarrow> bool \<Rightarrow> (string \<rightharpoonup> symbol)) \<Rightarrow> (string \<Rightarrow> string) \<Rightarrow> bool" where
  "publishes helper name_of =
     (\<forall>d flag k v. d k = Some v \<longrightarrow> helper d flag (name_of k) = Some v)"

text \<open>
  A helper to run the definitions on: it stores the entry of domain \<open>k\<close> as the variable
  \<open>k @ suffix\<close>, and nothing else.
\<close>

definition strip_suffix :: "string \<Rightarrow> string \<Rightarrow> string option" where
  "strip_suffix suffix name =
     (if length suffix \<le> length name
         \<and> drop (length name - length suffix) name = suffix
      then Some (take (length name - length suffix) name) else None)"

definition example_helper ::
  "string \<Rightarrow> (string \<rightharpoonup> symbol) \<Rightarrow> bool \<Rightarrow> (string \<rightharpoonup> symbol)" where
  "example_helper suffix d set_leading_order =
     (\<lambda>name. case strip_suffix suffix name of None \<Rightarrow> None | Some k \<Rightarrow> d k)"

subsection \<open>The methods of the class\<close>











section \<open>Finite volumes: \<open>test_finite_volume.py\<close>\<close>

subsection \<open>Meshes\<close>

text \<open>
  Modelled from the spec: the submesh (the mesh classes are not among the sources). A
  submesh holds the cell centres \<open>nodes\<close>, the cell faces \<open>edges\<close> (one more than the
  nodes) and a coordinate-system tag. A uniform submesh of \<open>n\<close> cells on \<open>[a, b]\<close> has
  faces \<open>a + i (b - a) / n\<close> and centres midway between them.
\<close>

datatype coord_sys = Cartesian | Spherical_polar

record submesh =
  nodes :: "real list"
  edges :: "real list"
  coord_sys :: coord_sys

definition uniform_submesh :: "real \<Rightarrow> real \<Rightarrow> nat \<Rightarrow> coord_sys \<Rightarrow> submesh" where
  "uniform_submesh a b n cs =
     \<lparr>nodes = map (\<lambda>i. a + (real i + 1 / 2) * ((b - a) / real n)) [0..<n],
      edges = map (\<lambda>i. a + real i * ((b - a) / real n)) [0..<Suc n],
      coord_sys = cs\<rparr>"

text \<open>
  Modelled from the spec: \<open>combine_submeshes\<close> concatenates contiguous submeshes into one,
  the face between two neighbours being shared (it is kept once).
\<close>

fun combine :: "submesh list \<Rightarrow> submesh" where
  "combine [] = \<lparr>nodes = [], edges = [], coord_sys = Cartesian\<rparr>"
| "combine [m] = m"
| "combine (m # ms) =
     (let r = combine ms
      in \<lparr>nodes = nodes m @ nodes r, edges = edges m @ tl (edges r), coord_sys = coord_sys m\<rparr>)"

text \<open>
  A mesh maps a domain name to its list of submeshes (the tests read \<open>mesh[domain][0]\<close>);
  \<open>combine_submeshes\<close> looks the domains up and combines the first submesh of each.
\<close>

type_synonym mesh = "string \<rightharpoonup> submesh list"

datatype disc_error = DomainError string | DiscretisationError | ShapeError

fun first_submeshes :: "mesh \<Rightarrow> string list \<Rightarrow> disc_error + submesh list" where
  "first_submeshes mesh [] = Inr []"
| "first_submeshes mesh (d # ds) =
     (case mesh d of
        None \<Rightarrow> Inl (DomainError d)
      | Some [] \<Rightarrow> Inl (DomainError d)
      | Some (m # _) \<Rightarrow>
          (case first_submeshes mesh ds of Inl e \<Rightarrow> Inl e | Inr ms \<Rightarrow> Inr (m # ms)))"

definition combine_submeshes :: "mesh \<Rightarrow> string list \<Rightarrow> disc_error + submesh" where
  "combine_submeshes mesh ds =
     (case first_submeshes mesh ds of Inl e \<Rightarrow> Inl e | Inr ms \<Rightarrow> Inr (combine ms))"

text \<open>
  Modelled from the spec: the mesh of the tests (\<open>get_mesh_for_testing\<close> is not among the
  sources). The three whole-cell domains have \<open>n\<close> uniform cells each; they are taken of
  equal width, on \<open>[0, 1]\<close> (the tests put the boundary values \<open>sin(0)\<^sup>2\<close> and \<open>sin(1)\<^sup>2\<close>
  at the two ends). The particle has \<open>n\<close> uniform spherical cells on \<open>[0, 1]\<close>.
\<close>

definition get_mesh_for_testing :: "nat \<Rightarrow> mesh" where
  "get_mesh_for_testing n =
     [''negative electrode'' \<mapsto> [uniform_submesh 0 (1 / 3) n Cartesian],
      ''separator'' \<mapsto> [uniform_submesh (1 / 3) (2 / 3) n Cartesian],
      ''positive electrode'' \<mapsto> [uniform_submesh (2 / 3) 1 n Cartesian],
      ''negative particle'' \<mapsto> [uniform_submesh 0 1 n Spherical_polar]]"

subsection \<open>Operators\<close>

text \<open>
  Modelled from the spec: the finite-volume gradient (the spatial method is not among the
  sources). At an interior face it is the difference of the two neighbouring cell values
  over the distance of their nodes. At a boundary face a Dirichlet value \<open>g\<close> gives the
  one-sided difference between \<open>g\<close> at the boundary and the first interior node, over
  their distance; a Neumann flux \<open>q\<close> is the gradient itself. A variable without
  boundary conditions makes the discretisation fail.
\<close>

datatype bc = Dirichlet real | Neumann real

definition gradient :: "submesh \<Rightarrow> real list \<Rightarrow> (bc \<times> bc) option \<Rightarrow> disc_error + real list" where
  "gradient m y bcs =
     (case bcs of
        None \<Rightarrow> Inl DiscretisationError
      | Some (left, right) \<Rightarrow>
          if nodes m = [] \<or> length y \<noteq> length (nodes m)
             \<or> length (edges m) \<noteq> Suc (length (nodes m))
          then Inl ShapeError
          else
            let n = length (nodes m);
                g_left = (case left of
                    Dirichlet g \<Rightarrow> (y ! 0 - g) / (nodes m ! 0 - edges m ! 0)
                  | Neumann q \<Rightarrow> q);
                g_right = (case right of
                    Dirichlet g \<Rightarrow> (g - y ! (n - 1)) / (edges m ! n - nodes m ! (n - 1))
                  | Neumann q \<Rightarrow> q)
            in Inr ([g_left]
                 @ map (\<lambda>i. (y ! Suc i - y ! i) / (nodes m ! Suc i - nodes m ! i)) [0..<n - 1]
                 @ [g_right]))"

text \<open>
  Modelled from the spec: the finite-volume divergence. At a cell it is the net outflow
  over the cell volume, \<open>(flux[right] A[right] - flux[left] A[left]) / V\<close>, with
  \<open>A = 1\<close>, \<open>V = \<Delta>x\<close> in Cartesian coordinates and \<open>A = 4 \<pi> r\<^sup>2\<close>,
  \<open>V = 4 \<pi> \<integral> r\<^sup>2 dr\<close> (over the cell, that is \<open>4 \<pi> (b\<^sup>3 - a\<^sup>3) / 3\<close>) in spherical
  coordinates.
\<close>

definition face_area :: "coord_sys \<Rightarrow> real \<Rightarrow> real" where
  "face_area cs r = (case cs of Cartesian \<Rightarrow> 1 | Spherical_polar \<Rightarrow> 4 * pi * r\<^sup>2)"

definition cell_volume :: "coord_sys \<Rightarrow> real \<Rightarrow> real \<Rightarrow> real" where
  "cell_volume cs a b =
     (case cs of Cartesian \<Rightarrow> b - a | Spherical_polar \<Rightarrow> 4 * pi * ((b ^ 3 - a ^ 3) / 3))"

definition divergence_1d :: "submesh \<Rightarrow> real list \<Rightarrow> real list" where
  "divergence_1d m N =
     map (\<lambda>i. (N ! Suc i * face_area (coord_sys m) (edges m ! Suc i)
               - N ! i * face_area (coord_sys m) (edges m ! i))
              / cell_volume (coord_sys m) (edges m ! i) (edges m ! Suc i))
       [0..<length (nodes m)]"

text \<open>
  Modelled from the spec: over a list of submeshes (a secondary domain with one submesh
  for each position of the primary domain) the operator is built once, for the first
  submesh, and replicated across the positions: block \<open>p\<close> of the flux vector gives block
  \<open>p\<close> of the result.
\<close>

definition divergence :: "submesh list \<Rightarrow> real list \<Rightarrow> disc_error + real list" where
  "divergence submesh_list N =
     (case submesh_list of
        [] \<Rightarrow> Inl DiscretisationError
      | m # _ \<Rightarrow>
          let k = length (edges m) in
          if length (edges m) \<noteq> Suc (length (nodes m))
             \<or> length N \<noteq> length submesh_list * k
          then Inl ShapeError
          else Inr (concat (map (\<lambda>p. divergence_1d m (take k (drop (p * k) N)))
                              [0..<length submesh_list])))"

subsection \<open>The convergence tests\<close>

text \<open>
  The infinity norm, and the difference of two vectors.
\<close>

definition norm_inf :: "real list \<Rightarrow> real" where
  "norm_inf xs = foldr (\<lambda>x m. max \<bar>x\<bar> m) xs 0"

definition vec_diff :: "real list \<Rightarrow> real list \<Rightarrow> real list" where
  "vec_diff xs ys = map (\<lambda>(x, y). x - y) (zip xs ys)"

definition whole_cell :: "string list" where
  "whole_cell = [''negative electrode'', ''separator'', ''positive electrode'']"

text \<open>
  The function \<open>get_error\<close> of each test: the mesh for \<open>n\<close>, the exact values at the
  nodes or edges, the discretised operator, and the difference of the two vectors.
\<close>

definition grad_get_error :: "nat \<Rightarrow> disc_error + real list" where
  "grad_get_error n =
     (case combine_submeshes (get_mesh_for_testing n) whole_cell of
        Inl e \<Rightarrow> Inl e
      | Inr combined_submesh \<Rightarrow>
          let x = nodes combined_submesh;
              y = map (\<lambda>x. (sin x)\<^sup>2) x;
              x_edge = edges combined_submesh;
              grad_exact = map (\<lambda>x. 2 * sin x * cos x) x_edge
          in (case gradient combined_submesh y (Some (Dirichlet 0, Dirichlet ((sin 1)\<^sup>2))) of
                Inl e \<Rightarrow> Inl e
              | Inr grad_approx \<Rightarrow> Inr (vec_diff grad_approx grad_exact)))"

definition cartesian_div_get_error :: "nat \<Rightarrow> disc_error + real list" where
  "cartesian_div_get_error n =
     (case combine_submeshes (get_mesh_for_testing n) whole_cell of
        Inl e \<Rightarrow> Inl e
      | Inr combined_submesh \<Rightarrow>
          let x = nodes combined_submesh;
              x_edge = edges combined_submesh;
              N = map (\<lambda>x. x\<^sup>2 * cos x) x_edge;
              div_exact = map (\<lambda>x. x * (2 * cos x - x * sin x)) x
          in (case divergence [combined_submesh] N of
                Inl e \<Rightarrow> Inl e
              | Inr div_approx \<Rightarrow> Inr (vec_diff div_approx div_exact)))"

definition spherical_div_quadratic_get_error :: "nat \<Rightarrow> disc_error + real list" where
  "spherical_div_quadratic_get_error n =
     (case get_mesh_for_testing n ''negative particle'' of
        None \<Rightarrow> Inl (DomainError ''negative particle'')
      | Some [] \<Rightarrow> Inl (DomainError ''negative particle'')
      | Some (submesh0 # rest) \<Rightarrow>
          let r = nodes submesh0;
              r_edge = edges submesh0;
              N = map (\<lambda>r. r\<^sup>2 * sin r) r_edge;
              div_exact = map (\<lambda>r. 4 * r * sin r + r\<^sup>2 * cos r) r
          in (case divergence (submesh0 # rest) N of
                Inl e \<Rightarrow> Inl e
              | Inr div_approx \<Rightarrow> Inr (vec_diff div_approx div_exact)))"

definition spherical_div_linear_get_error :: "nat \<Rightarrow> disc_error + real list" where
  "spherical_div_linear_get_error n =
     (case get_mesh_for_testing n ''negative particle'' of
        None \<Rightarrow> Inl (DomainError ''negative particle'')
      | Some [] \<Rightarrow> Inl (DomainError ''negative particle'')
      | Some (submesh0 # rest) \<Rightarrow>
          let r = nodes submesh0;
              r_edge = edges submesh0;
              N = map (\<lambda>r. r * sin r) r_edge;
              div_exact = map (\<lambda>r. 3 * sin r + r * cos r) r
          in (case divergence (submesh0 # rest) N of
                Inl e \<Rightarrow> Inl e
              | Inr div_approx \<Rightarrow> Inr (vec_diff div_approx div_exact)))"

text \<open>
  The function \<open>get_error\<close> of the two divergence tests with the flux and its exact
  divergence as parameters: \<open>cartesian_div_get_error\<close> is \<open>cartesian_div_error\<close> at the
  flux \<open>x\<^sup>2 cos(x)\<close>, and the two spherical tests are \<open>spherical_div_error\<close> at the fluxes
  \<open>r\<^sup>2 sin(r)\<close> and \<open>r sin(r)\<close>.
\<close>

definition cartesian_div_error ::
  "(real \<Rightarrow> real) \<Rightarrow> (real \<Rightarrow> real) \<Rightarrow> nat \<Rightarrow> disc_error + real list" where
  "cartesian_div_error flux exact n =
     (case combine_submeshes (get_mesh_for_testing n) whole_cell of
        Inl e \<Rightarrow> Inl e
      | Inr combined_submesh \<Rightarrow>
          let x = nodes combined_submesh;
              x_edge = edges combined_submesh;
              N = map flux x_edge;
              div_exact = map exact x
          in (case divergence [combined_submesh] N of
                Inl e \<Rightarrow> Inl e
              | Inr div_approx \<Rightarrow> Inr (vec_diff div_approx div_exact)))"

definition spherical_div_error ::
  "(real \<Rightarrow> real) \<Rightarrow> (real \<Rightarrow> real) \<Rightarrow> nat \<Rightarrow> disc_error + real list" where
  "spherical_div_error flux exact n =
     (case get_mesh_for_testing n ''negative particle'' of
        None \<Rightarrow> Inl (DomainError ''negative particle'')
      | Some [] \<Rightarrow> Inl (DomainError ''negative particle'')
      | Some (submesh0 # rest) \<Rightarrow>
          let r = nodes submesh0;
              r_edge = edges submesh0;
              N = map flux r_edge;
              div_exact = map exact r
          in (case divergence (submesh0 # rest) N of
                Inl e \<Rightarrow> Inl e
              | Inr div_approx \<Rightarrow> Inr (vec_diff div_approx div_exact)))"

text \<open>
  The rates of a test: the mesh sizes \<open>ns = 10 * 2 ** np.arange(6)\<close>, the infinity norm
  of the error for each of them, and \<open>rates = log2(err_norm[:-1] / err_norm[1:])\<close>.
\<close>

definition ns :: "nat list" where
  "ns = map (\<lambda>k. 10 * 2 ^ k) [0..<6]"

fun err_norm :: "(nat \<Rightarrow> disc_error + real list) \<Rightarrow> nat list \<Rightarrow> disc_error + real list" where
  "err_norm get_error [] = Inr []"
| "err_norm get_error (n # rest) =
     (case get_error n of
        Inl e \<Rightarrow> Inl e
      | Inr errs \<Rightarrow>
          (case err_norm get_error rest of
             Inl e \<Rightarrow> Inl e
           | Inr norms \<Rightarrow> Inr (norm_inf errs # norms)))"

definition rates :: "real list \<Rightarrow> real list" where
  "rates norms = map (\<lambda>(a, b). log 2 (a / b)) (zip (butlast norms) (tl norms))"

section \<open>A concrete full-cell model\<close>

text \<open>
  A full-cell configuration with one phase per electrode, used to run the definitions on
  a concrete input.
\<close>

definition example_options :: battery_options where
  "example_options =
     \<lparr>entries = [''SEI'' \<mapsto> ''ec reaction limited'', ''SEI on cracks'' \<mapsto> ''false'',
                 ''x-average side reactions'' \<mapsto> ''false'',
                 ''SEI porosity change'' \<mapsto> ''false'',
                 ''lithium plating porosity change'' \<mapsto> ''false''],
      electrode_types = [''negative'' \<mapsto> ''porous'', ''positive'' \<mapsto> ''porous''],
      phases = [''negative'' \<mapsto> [''primary''], ''positive'' \<mapsto> [''primary'']],
      whole_cell_domains = [''Negative electrode'', ''Separator'', ''Positive electrode'']\<rparr>"

definition example_param :: lithium_ion_parameters where
  "example_param =
     \<lparr>domain_params =
        [''Negative'' \<mapsto>
           \<lparr>epsilon_init = Parameter ''eps_n_init'', cap_init = Parameter ''C_n_init''\<rparr>,
         ''Separator'' \<mapsto>
           \<lparr>epsilon_init = Parameter ''eps_s_init'', cap_init = Parameter ''C_s_init''\<rparr>,
         ''Positive'' \<mapsto>
           \<lparr>epsilon_init = Parameter ''eps_p_init'', cap_init = Parameter ''C_p_init''\<rparr>],
      attrs =
        [''n'' \<mapsto> \<lparr>epsilon_init = Parameter ''eps_n_init'', cap_init = Parameter ''C_n_init''\<rparr>,
         ''p'' \<mapsto> \<lparr>epsilon_init = Parameter ''eps_p_init'', cap_init = Parameter ''C_p_init''\<rparr>],
      n_Li_particles_init = Parameter ''n_Li_particles_init'',
      n_Li_init = Parameter ''n_Li_init'',
      n_Li_e_init = Parameter ''n_Li_e_init'',
      F = Parameter ''F''\<rparr>"

definition example_variables :: "string \<rightharpoonup> symbol" where
  "example_variables =
     [''Total lithium in primary phase in negative electrode [mol]'' \<mapsto> Variable ''n_Li_n'',
      ''Total lithium in primary phase in positive electrode [mol]'' \<mapsto> Variable ''n_Li_p'',
      ''Negative electrode capacity [A.h]'' \<mapsto> Variable ''C_n'',
      ''Positive electrode capacity [A.h]'' \<mapsto> Variable ''C_p'',
      ''Total lithium in electrolyte [mol]'' \<mapsto> Variable ''n_Li_e'',
      ''Loss of lithium to SEI [mol]'' \<mapsto> Variable ''L_sei'',
      ''Loss of lithium to SEI on cracks [mol]'' \<mapsto> Variable ''L_sei_cr'',
      ''Loss of lithium to lithium plating [mol]'' \<mapsto> Variable ''L_pl'']"

definition example_model :: model where
  "example_model =
     \<lparr>options = example_options, param = example_param, submodels = [],
      variables = example_variables\<rparr>"

section \<open>Theorems\<close>

subsection \<open>Helper lemmas\<close>

lemma getitem_Some: "d k = Some v \<Longrightarrow> getitem d k = Inr v"
  by (simp add: getitem_def)

lemma getitem_None: "d k = None \<Longrightarrow> getitem d k = Inl (KeyError k)"
  by (simp add: getitem_def)

lemma bind_err_Inr: "bind_err (Inr v) f = f v"
  by (simp add: bind_err_def)

lemma bind_err_Inl: "bind_err (Inl e) f = Inl e"
  by (simp add: bind_err_def)

lemma filter_key_update_same:
  "distinct (map fst xs) \<Longrightarrow> filter (\<lambda>kv. fst kv = k) (AList.update k v xs) = [(k, v)]"
proof (induction xs)
  case Nil
  then show ?case by simp
next
  case (Cons x xs)
  show ?case
  proof (cases "fst x = k")
    case True
    with Cons.prems have "k \<notin> fst ` set xs" by simp
    then have "\<forall>kv\<in>set xs. fst kv \<noteq> k" by force
    then have "filter (\<lambda>kv. fst kv = k) xs = []" by (simp add: filter_empty_conv)
    with True show ?thesis by simp
  next
    case False
    with Cons show ?thesis by simp
  qed
qed

lemma filter_key_update_other:
  "k \<noteq> k' \<Longrightarrow> filter (\<lambda>kv. fst kv = k) (AList.update k' v xs) = filter (\<lambda>kv. fst kv = k) xs"
  by (induction xs) auto

lemma bind_err_eq_Inr: "(bind_err m f = Inr r) = (\<exists>v. m = Inr v \<and> f v = Inr r)"
  by (cases m) (simp_all add: bind_err_def)

lemma getitem_eq_Inr: "(getitem d k = Inr v) = (d k = Some v)"
  by (simp add: getitem_def split: option.splits)

lemma lower_negative: "lower ''Negative electrode'' = ''negative electrode''"
  by code_simp

lemma lower_positive: "lower ''Positive electrode'' = ''positive electrode''"
  by code_simp

lemma first_char_negative: "first_char ''negative electrode'' = Inr CHR ''n''"
  by (simp add: first_char_def)

lemma first_char_positive: "first_char ''positive electrode'' = Inr CHR ''p''"
  by (simp add: first_char_def)

lemma step_negative:
  assumes "degradation_step opts p vars ''Negative electrode'' = Inr vars1"
  shows "\<exists>tot lam. vars1 = vars(''Total lithium in negative electrode [mol]'' \<mapsto> tot,
           ''LAM_ne [%]'' \<mapsto> lam,
           ''Loss of active material in negative electrode [%]'' \<mapsto> lam)"
  using assms
  by (auto simp: degradation_step_def lower_negative first_char_negative bind_err_eq_Inr Let_def)

lemma step_positive:
  assumes "degradation_step opts p vars ''Positive electrode'' = Inr vars1"
  shows "\<exists>tot lam. vars1 = vars(''Total lithium in positive electrode [mol]'' \<mapsto> tot,
           ''LAM_pe [%]'' \<mapsto> lam,
           ''Loss of active material in positive electrode [%]'' \<mapsto> lam)"
  using assms
  by (auto simp: degradation_step_def lower_positive first_char_positive bind_err_eq_Inr Let_def)

lemma loop_negative:
  assumes "degradation_loop opts p vars Ds = Inr vars'"
      and "set Ds \<subseteq> {''Negative electrode'', ''Positive electrode''}"
      and "(\<exists>lam. vars ''LAM_ne [%]'' = Some lam
              \<and> vars ''Loss of active material in negative electrode [%]'' = Some lam)
           \<or> ''Negative electrode'' \<in> set Ds"
  shows "\<exists>lam. vars' ''LAM_ne [%]'' = Some lam
              \<and> vars' ''Loss of active material in negative electrode [%]'' = Some lam"
  using assms
proof (induction Ds arbitrary: vars)
  case Nil
  then show ?case by simp
next
  case (Cons D Ds)
  from Cons.prems(1) obtain vars1 where
    step: "degradation_step opts p vars D = Inr vars1"
    and rest: "degradation_loop opts p vars1 Ds = Inr vars'"
    by (auto simp: bind_err_eq_Inr)
  from Cons.prems(2) have sub: "set Ds \<subseteq> {''Negative electrode'', ''Positive electrode''}"
    and D: "D = ''Negative electrode'' \<or> D = ''Positive electrode''" by auto
  have "(\<exists>lam. vars1 ''LAM_ne [%]'' = Some lam
              \<and> vars1 ''Loss of active material in negative electrode [%]'' = Some lam)
           \<or> ''Negative electrode'' \<in> set Ds"
  proof (cases "D = ''Negative electrode''")
    case True
    with step_negative step show ?thesis by fastforce
  next
    case False
    with D have Dp: "D = ''Positive electrode''" by simp
    with step step_positive obtain tot lam where
      v1: "vars1 = vars(''Total lithium in positive electrode [mol]'' \<mapsto> tot,
           ''LAM_pe [%]'' \<mapsto> lam,
           ''Loss of active material in positive electrode [%]'' \<mapsto> lam)" by blast
    from Cons.prems(3) Dp show ?thesis by (auto simp: v1)
  qed
  from Cons.IH [OF rest sub this] show ?case .
qed

lemma loop_positive:
  assumes "degradation_loop opts p vars Ds = Inr vars'"
      and "set Ds \<subseteq> {''Negative electrode'', ''Positive electrode''}"
      and "(\<exists>lam. vars ''LAM_pe [%]'' = Some lam
              \<and> vars ''Loss of active material in positive electrode [%]'' = Some lam)
           \<or> ''Positive electrode'' \<in> set Ds"
  shows "\<exists>lam. vars' ''LAM_pe [%]'' = Some lam
              \<and> vars' ''Loss of active material in positive electrode [%]'' = Some lam"
  using assms
proof (induction Ds arbitrary: vars)
  case Nil
  then show ?case by simp
next
  case (Cons D Ds)
  from Cons.prems(1) obtain vars1 where
    step: "degradation_step opts p vars D = Inr vars1"
    and rest: "degradation_loop opts p vars1 Ds = Inr vars'"
    by (auto simp: bind_err_eq_Inr)
  from Cons.prems(2) have sub: "set Ds \<subseteq> {''Negative electrode'', ''Positive electrode''}"
    and D: "D = ''Negative electrode'' \<or> D = ''Positive electrode''" by auto
  have "(\<exists>lam. vars1 ''LAM_pe [%]'' = Some lam
              \<and> vars1 ''Loss of active material in positive electrode [%]'' = Some lam)
           \<or> ''Positive electrode'' \<in> set Ds"
  proof (cases "D = ''Positive electrode''")
    case True
    with step_positive step show ?thesis by fastforce
  next
    case False
    with D have Dp: "D = ''Negative electrode''" by simp
    with step step_negative obtain tot lam where
      v1: "vars1 = vars(''Total lithium in negative electrode [mol]'' \<mapsto> tot,
           ''LAM_ne [%]'' \<mapsto> lam,
           ''Loss of active material in negative electrode [%]'' \<mapsto> lam)" by blast
    from Cons.prems(3) Dp show ?thesis by (auto simp: v1)
  qed
  from Cons.IH [OF rest sub this] show ?case .
qed


lemma eps_dict_ok:
  assumes "\<forall>d\<in>set ds. \<exists>w dp. split_first d = Inr w \<and> domain_params p w = Some dp"
  shows "\<exists>eps. eps_dict p acc ds = Inr eps
           \<and> (\<forall>d\<in>set ds. \<exists>w dp. split_first d = Inr w \<and> domain_params p w = Some dp
                  \<and> eps d = Some (epsilon_init dp))
           \<and> (\<forall>k. k \<notin> set ds \<longrightarrow> eps k = acc k)"
  using assms
proof (induction ds arbitrary: acc)
  case Nil
  then show ?case by simp
next
  case (Cons d ds)
  from Cons.prems obtain w dp where
    w: "split_first d = Inr w" and dp: "domain_params p w = Some dp" by auto
  from Cons.prems have rest: "\<forall>d\<in>set ds. \<exists>w dp. split_first d = Inr w \<and> domain_params p w = Some dp"
    by simp
  from Cons.IH [OF rest, of "acc(d \<mapsto> epsilon_init dp)"] obtain eps where
    run: "eps_dict p (acc(d \<mapsto> epsilon_init dp)) ds = Inr eps"
    and vals: "\<forall>d\<in>set ds. \<exists>w dp. split_first d = Inr w \<and> domain_params p w = Some dp
                  \<and> eps d = Some (epsilon_init dp)"
    and frame: "\<forall>k. k \<notin> set ds \<longrightarrow> eps k = (acc(d \<mapsto> epsilon_init dp)) k"
    by blast
  have step: "eps_dict p acc (d # ds) = Inr eps"
    using w dp run by (simp add: bind_err_Inr getitem_Some)
  have here: "\<exists>w dp. split_first d = Inr w \<and> domain_params p w = Some dp
                  \<and> eps d = Some (epsilon_init dp)"
  proof (cases "d \<in> set ds")
    case True
    with vals show ?thesis by blast
  next
    case False
    with frame have "eps d = Some (epsilon_init dp)" by simp
    with w dp show ?thesis by blast
  qed
  have frame': "\<forall>k. k \<notin> set (d # ds) \<longrightarrow> eps k = acc k"
    using frame by simp
  from step here vals frame' show ?case by simp
qed

lemma depsdt_dict_frame: "k \<notin> set ds \<Longrightarrow> depsdt_dict acc ds k = acc k"
  by (induction ds arbitrary: acc) auto

lemma depsdt_dict_val:
  "d \<in> set ds \<Longrightarrow>
   depsdt_dict acc ds d = Some (FullBroadcast (Scalar 0) d ''current collector'')"
proof (induction ds arbitrary: acc)
  case Nil
  then show ?case by simp
next
  case (Cons x xs)
  show ?case
  proof (cases "d \<in> set xs")
    case True
    then show ?thesis by (simp add: Cons.IH)
  next
    case False
    with Cons.prems have "d = x" by simp
    with False show ?thesis by (simp add: depsdt_dict_frame)
  qed
qed

subsection \<open>Lithium-ion base model\<close>

text \<open>
  C8: for every options configuration (one that holds the options the method reads),
  \<open>set_sei_submodel\<close> returns, and registers exactly one "sei" submodel \<open>s\<close>, chosen by
  the "SEI" option; it registers a "sei on cracks" submodel \<open>c\<close> if and only if the
  negative electrode type is not "planar" (for a planar electrode the entries of that key
  are those of the registry before the call); and \<open>c\<close> is the zero-contribution \<open>NoSEI\<close>
  variant exactly when the "SEI" option is "none" or "constant" or the "SEI on cracks"
  option is "false".
\<close>

theorem set_sei_submodel_registers:
  assumes et: "electrode_types (options self) ''negative'' = Some et"
      and xa: "entries (options self) ''x-average side reactions'' = Some xa"
      and sei: "entries (options self) ''SEI'' = Some sei"
      and cr: "entries (options self) ''SEI on cracks'' = Some cr"
      and dist: "distinct (map fst (submodels self))"
  shows "\<exists>self' s c.
           s = (if sei = ''none'' then NoSEI (param self) (options self) None
                else if sei = ''constant'' then ConstantSEI (param self) (options self)
                else SEIGrowth (param self)
                       (if et = ''planar'' then ''interface''
                        else if xa = ''true'' then ''x-average'' else ''full electrode'')
                       (options self) False)
         \<and> set_sei_submodel self = Inr self'
         \<and> self' = self\<lparr>submodels :=
               (if et = ''planar'' then AList.update ''sei'' s (submodels self)
                else AList.update ''sei on cracks'' c
                       (AList.update ''sei'' s (submodels self)))\<rparr>
         \<and> filter (\<lambda>kv. fst kv = ''sei'') (submodels self') = [(''sei'', s)]
         \<and> (if et = ''planar''
            then filter (\<lambda>kv. fst kv = ''sei on cracks'') (submodels self') =
                 filter (\<lambda>kv. fst kv = ''sei on cracks'') (submodels self)
            else filter (\<lambda>kv. fst kv = ''sei on cracks'') (submodels self') =
                 [(''sei on cracks'', c)])
         \<and> (c = NoSEI (param self) (options self) (Some True)) =
             (sei = ''none'' \<or> sei = ''constant'' \<or> cr = ''false'')"
proof -
  define loc where "loc = (if et = ''planar'' then ''interface''
              else if xa = ''true'' then ''x-average'' else ''full electrode'')"
  define s where "s = (if sei = ''none'' then NoSEI (param self) (options self) None
            else if sei = ''constant'' then ConstantSEI (param self) (options self)
            else SEIGrowth (param self) loc (options self) False)"
  define c where "c = (if sei = ''none'' \<or> sei = ''constant'' \<or> cr = ''false''
            then NoSEI (param self) (options self) (Some True)
            else SEIGrowth (param self) loc (options self) True)"
  have one_p: "filter (\<lambda>kv. fst kv = ''sei'') (AList.update ''sei'' s (submodels self)) =
      [(''sei'', s)]"
    using dist by (rule filter_key_update_same)
  have one_f: "filter (\<lambda>kv. fst kv = ''sei'')
      (AList.update ''sei on cracks'' c (AList.update ''sei'' s (submodels self))) =
      [(''sei'', s)]"
    using one_p by (simp add: filter_key_update_other)
  have cr_p: "filter (\<lambda>kv. fst kv = ''sei on cracks'')
      (AList.update ''sei'' s (submodels self)) =
      filter (\<lambda>kv. fst kv = ''sei on cracks'') (submodels self)"
    by (simp add: filter_key_update_other)
  have cr_f: "filter (\<lambda>kv. fst kv = ''sei on cracks'')
      (AList.update ''sei on cracks'' c (AList.update ''sei'' s (submodels self))) =
      [(''sei on cracks'', c)]"
    using dist by (intro filter_key_update_same distinct_update)
  have variant: "(c = NoSEI (param self) (options self) (Some True)) =
             (sei = ''none'' \<or> sei = ''constant'' \<or> cr = ''false'')"
    by (simp add: c_def)
  show ?thesis
  proof (cases "et = ''planar''")
    case True
    have run: "set_sei_submodel self =
        Inr (self\<lparr>submodels := AList.update ''sei'' s (submodels self)\<rparr>)"
      using et sei True
      by (simp add: set_sei_submodel_def getitem_Some bind_err_Inr Let_def s_def loc_def)
    show ?thesis
      by (intro exI [of _ "self\<lparr>submodels := AList.update ''sei'' s (submodels self)\<rparr>"]
          exI [of _ s] exI [of _ c] conjI) (simp_all add: True run one_p cr_p variant, simp add: s_def loc_def True)
  next
    case False
    have run: "set_sei_submodel self =
        Inr (self\<lparr>submodels := AList.update ''sei on cracks'' c
               (AList.update ''sei'' s (submodels self))\<rparr>)"
      using et xa sei cr False
      by (auto simp: set_sei_submodel_def getitem_Some bind_err_Inr Let_def s_def c_def loc_def)
    show ?thesis
      by (intro exI [of _ "self\<lparr>submodels := AList.update ''sei on cracks'' c
               (AList.update ''sei'' s (submodels self))\<rparr>"]
          exI [of _ s] exI [of _ c] conjI) (simp_all add: False run one_f cr_f variant, simp add: s_def loc_def False)
  qed
qed


theorem set_sei_submodel_registers_witness:
  "\<exists>self'. set_sei_submodel example_model = Inr self'
     \<and> map fst (submodels self') = [''sei'', ''sei on cracks'']
     \<and> map_of (submodels self') ''sei on cracks'' = Some (NoSEI example_param example_options (Some True))"
proof -
  have et: "electrode_types (options example_model) ''negative'' = Some ''porous''"
    by (simp add: example_model_def example_options_def)
  have xa: "entries (options example_model) ''x-average side reactions'' = Some ''false''"
    by (simp add: example_model_def example_options_def)
  have sei: "entries (options example_model) ''SEI'' = Some ''ec reaction limited''"
    by (simp add: example_model_def example_options_def)
  have cr: "entries (options example_model) ''SEI on cracks'' = Some ''false''"
    by (simp add: example_model_def example_options_def)
  have dist: "distinct (map fst (submodels example_model))"
    by (simp add: example_model_def)
  from set_sei_submodel_registers [OF et xa sei cr dist]
  obtain self' s c where
    r: "set_sei_submodel example_model = Inr self'"
    and st: "self' = example_model\<lparr>submodels :=
               (if ''porous'' = ''planar'' then AList.update ''sei'' s (submodels example_model)
                else AList.update ''sei on cracks'' c
                       (AList.update ''sei'' s (submodels example_model)))\<rparr>"
    and c: "(c = NoSEI (param example_model) (options example_model) (Some True)) =
             (''ec reaction limited'' = ''none'' \<or> ''ec reaction limited'' = ''constant''
              \<or> ''false'' = ''false'')"
    by blast
  from c have c': "c = NoSEI example_param example_options (Some True)"
    by (simp add: example_model_def)
  from st have "submodels self' = [(''sei'', s), (''sei on cracks'', c)]"
    by (simp add: example_model_def)
  with r c' show ?thesis by simp
qed

text \<open>
  C9: when \<open>set_degradation_variables\<close> has run (returned without raising) on a model
  whose whole-cell domains are among "Negative electrode", "Separator" and "Positive
  electrode", the accounting identities hold between the expressions stored in
  \<open>variables\<close>: "Total lithium [mol]" is the sum of "Total lithium in particles [mol]" and
  "Total lithium in electrolyte [mol]"; "Total lithium lost [mol]" is the initial total
  lithium parameter minus "Total lithium [mol]"; "LLI [%]" and "Loss of lithium
  inventory [%]" are the same expression; and for each electrode among the domains,
  "LAM_ne [%]" (resp. "LAM_pe [%]") and "Loss of active material in negative (resp.
  positive) electrode [%]" are the same expression.
\<close>

theorem degradation_identities:
  assumes run: "set_degradation_variables self = Inr self'"
      and doms: "set (whole_cell_domains (options self)) \<subseteq>
                   {''Negative electrode'', ''Separator'', ''Positive electrode''}"
  shows "(\<exists>n_Li_particles n_Li_e.
            variables self' ''Total lithium in particles [mol]'' = Some n_Li_particles
          \<and> variables self' ''Total lithium in electrolyte [mol]'' = Some n_Li_e
          \<and> variables self' ''Total lithium [mol]'' = Some (Addition n_Li_particles n_Li_e)
          \<and> variables self' ''Total lithium lost [mol]'' =
              Some (Subtraction (n_Li_init (param self)) (Addition n_Li_particles n_Li_e)))
       \<and> (\<exists>LLI. variables self' ''LLI [%]'' = Some LLI
            \<and> variables self' ''Loss of lithium inventory [%]'' = Some LLI)
       \<and> (''Negative electrode'' \<in> set (whole_cell_domains (options self)) \<longrightarrow>
            (\<exists>LAM. variables self' ''LAM_ne [%]'' = Some LAM
              \<and> variables self' ''Loss of active material in negative electrode [%]'' = Some LAM))
       \<and> (''Positive electrode'' \<in> set (whole_cell_domains (options self)) \<longrightarrow>
            (\<exists>LAM. variables self' ''LAM_pe [%]'' = Some LAM
              \<and> variables self' ''Loss of active material in positive electrode [%]'' = Some LAM))"
proof -
  let ?domains = "filter (\<lambda>d. d \<noteq> ''Separator'') (whole_cell_domains (options self))"
  from run obtain vars1 n_Li_e terms x y where
    loop: "degradation_loop (options self) (param self) (variables self) ?domains = Inr vars1"
    and e: "vars1 ''Total lithium in electrolyte [mol]'' = Some n_Li_e"
    and self': "self' = self\<lparr>variables := vars1(
            ''LLI [%]'' \<mapsto> Multiplication
              (Subtraction (Scalar 1) (Division (py_sum terms) (n_Li_particles_init (param self))))
              (Scalar 100),
            ''Loss of lithium inventory [%]'' \<mapsto> Multiplication
              (Subtraction (Scalar 1) (Division (py_sum terms) (n_Li_particles_init (param self))))
              (Scalar 100),
            ''Loss of lithium inventory, including electrolyte [%]'' \<mapsto> Multiplication
              (Subtraction (Scalar 1)
                (Division (Addition (py_sum terms) n_Li_e) (n_Li_init (param self))))
              (Scalar 100),
            ''Total lithium [mol]'' \<mapsto> Addition (py_sum terms) n_Li_e,
            ''Total lithium in particles [mol]'' \<mapsto> py_sum terms,
            ''Total lithium lost [mol]'' \<mapsto>
               Subtraction (n_Li_init (param self)) (Addition (py_sum terms) n_Li_e),
            ''Total lithium lost from particles [mol]'' \<mapsto>
               Subtraction (n_Li_particles_init (param self)) (py_sum terms),
            ''Total lithium lost from electrolyte [mol]'' \<mapsto>
               Subtraction (n_Li_e_init (param self)) n_Li_e,
            ''Total lithium lost to side reactions [mol]'' \<mapsto> x,
            ''Total capacity lost to side reactions [A.h]'' \<mapsto> y)\<rparr>"
    unfolding set_degradation_variables_def Let_def bind_err_eq_Inr getitem_eq_Inr
    by blast
  have sub: "set ?domains \<subseteq> {''Negative electrode'', ''Positive electrode''}"
    using doms by auto
  have totals: "\<exists>n_Li_particles n_Li_e.
            variables self' ''Total lithium in particles [mol]'' = Some n_Li_particles
          \<and> variables self' ''Total lithium in electrolyte [mol]'' = Some n_Li_e
          \<and> variables self' ''Total lithium [mol]'' = Some (Addition n_Li_particles n_Li_e)
          \<and> variables self' ''Total lithium lost [mol]'' =
              Some (Subtraction (n_Li_init (param self)) (Addition n_Li_particles n_Li_e))"
    using e by (simp add: self')
  have lli: "\<exists>LLI. variables self' ''LLI [%]'' = Some LLI
            \<and> variables self' ''Loss of lithium inventory [%]'' = Some LLI"
    by (simp add: self')
  have neg: "\<exists>LAM. variables self' ''LAM_ne [%]'' = Some LAM
              \<and> variables self' ''Loss of active material in negative electrode [%]'' = Some LAM"
    if "''Negative electrode'' \<in> set (whole_cell_domains (options self))"
  proof -
    from that have "''Negative electrode'' \<in> set ?domains" by simp
    with loop_negative [OF loop sub] show ?thesis by (simp add: self')
  qed
  have pos: "\<exists>LAM. variables self' ''LAM_pe [%]'' = Some LAM
              \<and> variables self' ''Loss of active material in positive electrode [%]'' = Some LAM"
    if "''Positive electrode'' \<in> set (whole_cell_domains (options self))"
  proof -
    from that have "''Positive electrode'' \<in> set ?domains" by simp
    with loop_positive [OF loop sub] show ?thesis by (simp add: self')
  qed
  from totals lli neg pos show ?thesis by blast
qed


theorem degradation_identities_witness:
  "\<exists>self'. set_degradation_variables example_model = Inr self'
     \<and> (\<exists>LAM. variables self' ''LAM_ne [%]'' = Some LAM
           \<and> variables self' ''Loss of active material in negative electrode [%]'' = Some LAM)
     \<and> (\<exists>LAM. variables self' ''LAM_pe [%]'' = Some LAM
           \<and> variables self' ''Loss of active material in positive electrode [%]'' = Some LAM)
     \<and> (\<exists>a b. variables self' ''Total lithium in particles [mol]'' = Some a
           \<and> variables self' ''Total lithium in electrolyte [mol]'' = Some b
           \<and> variables self' ''Total lithium [mol]'' = Some (Addition a b))"
proof -
  have "case set_degradation_variables example_model of Inl e \<Rightarrow> False | Inr m \<Rightarrow> True"
    by code_simp
  then obtain self' where run: "set_degradation_variables example_model = Inr self'"
    by (cases "set_degradation_variables example_model") simp_all
  have doms: "set (whole_cell_domains (options example_model)) \<subseteq>
                   {''Negative electrode'', ''Separator'', ''Positive electrode''}"
    by (simp add: example_model_def example_options_def)
  have n: "''Negative electrode'' \<in> set (whole_cell_domains (options example_model))"
    and p: "''Positive electrode'' \<in> set (whole_cell_domains (options example_model))"
    by (simp_all add: example_model_def example_options_def)
  from degradation_identities [OF run doms] n p run show ?thesis by blast
qed


text \<open>
  C10: \<open>default_parameter_values\<close> returns the "Marquis2019" parameter set if and only
  if \<open>whole_cell_domains\<close> is the three-element list "negative electrode", "separator",
  "positive electrode", and returns the "Xu2019" parameter set for every other value.
\<close>

theorem default_parameter_values_iff:
  "(default_parameter_values w = ParameterValues ''Marquis2019'') =
     (w = [''negative electrode'', ''separator'', ''positive electrode''])
   \<and> (default_parameter_values w = ParameterValues ''Xu2019'') =
     (w \<noteq> [''negative electrode'', ''separator'', ''positive electrode''])"
  by (simp add: default_parameter_values_def)


subsection \<open>Constant porosity submodel\<close>

lemma strip_suffix_append: "strip_suffix suffix (k @ suffix) = Some k"
  by (simp add: strip_suffix_def)

lemma strip_suffix_Some:
  assumes "strip_suffix suffix name = Some k"
  shows "name = k @ suffix"
proof -
  from assms have d: "drop (length name - length suffix) name = suffix"
    and k: "k = take (length name - length suffix) name"
    by (auto simp: strip_suffix_def split: if_splits)
  have "name = take (length name - length suffix) name @ drop (length name - length suffix) name"
    by simp
  then show ?thesis unfolding d k [symmetric] .
qed

lemma example_helper_publishes: "publishes (example_helper suffix) (\<lambda>k. k @ suffix)"
  by (simp add: publishes_def example_helper_def strip_suffix_append)

lemma example_helper_apart:
  "example_helper '' porosity change'' d flag (k @ '' porosity'') = None"
proof (cases "strip_suffix '' porosity change'' (k @ '' porosity'')")
  case None
  then show ?thesis by (simp add: example_helper_def)
next
  case (Some k')
  then have "k @ '' porosity'' = k' @ '' porosity change''" by (rule strip_suffix_Some)
  then have "last (k @ '' porosity'') = last (k' @ '' porosity change'')" by simp
  then show ?thesis by simp
qed

text \<open>
  C6: when the options "SEI porosity change" and "lithium plating porosity change" are
  both "false", \<open>set_porosity_submodel\<close> registers the \<open>Constant\<close> porosity submodel under
  "porosity". Its \<open>get_fundamental_variables\<close> returns (provided every whole-cell domain
  names an entry of \<open>domain_params\<close>, without which the method raises) the variables
  that the two helpers of the base class make of the dicts \<open>eps\<close> and \<open>depsdt\<close>, whose
  keys are the whole-cell domains: \<open>depsdt\<close> holds for every domain the full broadcast of
  0 over that domain, and \<open>eps\<close> the initial porosity parameter \<open>epsilon_init\<close> of the
  domain. So, when the helper of the porosity change publishes the entries of its dict,
  the porosity-change variable of every whole-cell domain is the full broadcast of 0; and
  when the helper of the porosity publishes the entries of its dict (the other helper
  storing no porosity variable), the porosity variable of every whole-cell domain is the
  initial porosity parameter of that domain.
\<close>

theorem constant_porosity_zero_contribution:
  assumes sp: "entries (options self) ''SEI porosity change'' = Some ''false''"
      and pp: "entries (options self) ''lithium plating porosity change'' = Some ''false''"
      and dp: "\<forall>d\<in>set (whole_cell_domains (options self)).
                 \<exists>w dp. split_first d = Inr w \<and> domain_params (param self) w = Some dp"
  shows "\<exists>self' sub eps depsdt vars.
           set_porosity_submodel self = Inr self'
         \<and> sub = Porosity_Constant (param self) (options self)
         \<and> submodels self' = AList.update ''porosity'' sub (submodels self)
         \<and> map_of (submodels self') ''porosity'' = Some sub
         \<and> get_fundamental_variables std_porosity std_change sub = Inr vars
         \<and> vars = std_porosity eps True ++ std_change depsdt True
         \<and> dom eps = set (whole_cell_domains (options self))
         \<and> dom depsdt = set (whole_cell_domains (options self))
         \<and> (\<forall>d\<in>set (whole_cell_domains (options self)).
               depsdt d = Some (FullBroadcast (Scalar 0) d ''current collector'')
             \<and> (\<exists>w dp. split_first d = Inr w \<and> domain_params (param self) w = Some dp
                   \<and> eps d = Some (epsilon_init dp)))
         \<and> (publishes std_change change_name \<longrightarrow>
               (\<forall>d\<in>set (whole_cell_domains (options self)).
                  vars (change_name d) = Some (FullBroadcast (Scalar 0) d ''current collector'')))
         \<and> (publishes std_porosity porosity_name
               \<and> (\<forall>d flag k. std_change d flag (porosity_name k) = None) \<longrightarrow>
               (\<forall>d\<in>set (whole_cell_domains (options self)).
                  \<exists>w dp. split_first d = Inr w \<and> domain_params (param self) w = Some dp
                    \<and> vars (porosity_name d) = Some (epsilon_init dp)))"
proof -
  let ?ds = "whole_cell_domains (options self)"
  let ?sub = "Porosity_Constant (param self) (options self)"
  let ?self' = "self\<lparr>submodels := AList.update ''porosity'' ?sub (submodels self)\<rparr>"
  have run: "set_porosity_submodel self = Inr ?self'"
    using sp pp by (simp add: set_porosity_submodel_def getitem_Some bind_err_Inr)
  from eps_dict_ok [OF dp, of Map.empty] obtain eps where
    e: "eps_dict (param self) Map.empty ?ds = Inr eps"
    and ev: "\<forall>d\<in>set ?ds. \<exists>w dp. split_first d = Inr w \<and> domain_params (param self) w = Some dp
                  \<and> eps d = Some (epsilon_init dp)"
    and ef: "\<forall>k. k \<notin> set ?ds \<longrightarrow> eps k = None"
    by auto
  let ?depsdt = "depsdt_dict Map.empty ?ds"
  let ?vars = "std_porosity eps True ++ std_change ?depsdt True"
  have dv: "\<forall>d\<in>set ?ds. ?depsdt d = Some (FullBroadcast (Scalar 0) d ''current collector'')"
    and df: "\<forall>k. k \<notin> set ?ds \<longrightarrow> ?depsdt k = None"
    by (simp_all add: depsdt_dict_val depsdt_dict_frame)
  have dom_e: "dom eps = set ?ds"
    using ev ef by (auto simp: dom_def)
  have dom_d: "dom ?depsdt = set ?ds"
    using dv df by (auto simp: dom_def)
  have gfv: "get_fundamental_variables std_porosity std_change ?sub = Inr ?vars"
    using e by (simp add: get_fundamental_variables_def bind_err_Inr)
  have look: "map_of (AList.update ''porosity'' ?sub (submodels self)) ''porosity'' = Some ?sub"
    by (simp add: update_conv')
  have dicts: "\<forall>d\<in>set ?ds.
               ?depsdt d = Some (FullBroadcast (Scalar 0) d ''current collector'')
             \<and> (\<exists>w dp. split_first d = Inr w \<and> domain_params (param self) w = Some dp
                   \<and> eps d = Some (epsilon_init dp))"
    using dv ev by blast
  have change: "publishes std_change change_name \<longrightarrow>
      (\<forall>d\<in>set ?ds. ?vars (change_name d) = Some (FullBroadcast (Scalar 0) d ''current collector''))"
  proof (intro impI ballI)
    fix d assume chg: "publishes std_change change_name" and d: "d \<in> set ?ds"
    from dv d have "?depsdt d = Some (FullBroadcast (Scalar 0) d ''current collector'')"
      by blast
    with chg have "std_change ?depsdt True (change_name d)
        = Some (FullBroadcast (Scalar 0) d ''current collector'')"
      unfolding publishes_def by blast
    then show "?vars (change_name d) = Some (FullBroadcast (Scalar 0) d ''current collector'')"
      by (simp add: map_add_def)
  qed
  have porosity: "publishes std_porosity porosity_name
        \<and> (\<forall>d flag k. std_change d flag (porosity_name k) = None) \<longrightarrow>
      (\<forall>d\<in>set ?ds. \<exists>w dp. split_first d = Inr w \<and> domain_params (param self) w = Some dp
                   \<and> ?vars (porosity_name d) = Some (epsilon_init dp))"
  proof (intro impI ballI)
    fix d
    assume h: "publishes std_porosity porosity_name
        \<and> (\<forall>d flag k. std_change d flag (porosity_name k) = None)"
      and d: "d \<in> set ?ds"
    from h have por: "publishes std_porosity porosity_name"
      and apart: "\<forall>d flag k. std_change d flag (porosity_name k) = None" by blast+
    from ev d obtain w dp where
      w: "split_first d = Inr w" "domain_params (param self) w = Some dp"
      and ed: "eps d = Some (epsilon_init dp)" by blast
    from por ed have "std_porosity eps True (porosity_name d) = Some (epsilon_init dp)"
      unfolding publishes_def by blast
    moreover from apart have "std_change ?depsdt True (porosity_name d) = None" by blast
    ultimately have v: "?vars (porosity_name d) = Some (epsilon_init dp)"
      by (simp add: map_add_def)
    show "\<exists>w dp. split_first d = Inr w \<and> domain_params (param self) w = Some dp
                   \<and> ?vars (porosity_name d) = Some (epsilon_init dp)"
      by (rule exI [of _ w], rule exI [of _ dp]) (simp only: w v simp_thms)
  qed
  show ?thesis
    apply (rule exI [of _ ?self'])
    apply (rule exI [of _ ?sub])
    apply (rule exI [of _ eps])
    apply (rule exI [of _ ?depsdt])
    apply (rule exI [of _ ?vars])
    using run gfv dom_e dom_d look dicts change porosity by simp
qed

theorem constant_porosity_zero_contribution_witness:
  "\<exists>self' vars.
     set_porosity_submodel example_model = Inr self'
   \<and> map_of (submodels self') ''porosity'' = Some (Porosity_Constant example_param example_options)
   \<and> get_fundamental_variables (example_helper '' porosity'') (example_helper '' porosity change'')
        (Porosity_Constant example_param example_options) = Inr vars
   \<and> vars ''Separator porosity change''
        = Some (FullBroadcast (Scalar 0) ''Separator'' ''current collector'')
   \<and> vars ''Negative electrode porosity change''
        = Some (FullBroadcast (Scalar 0) ''Negative electrode'' ''current collector'')
   \<and> vars ''Negative electrode porosity'' = Some (Parameter ''eps_n_init'')"
proof -
  have sp: "entries (options example_model) ''SEI porosity change'' = Some ''false''"
    by (simp add: example_model_def example_options_def)
  have pp: "entries (options example_model) ''lithium plating porosity change'' = Some ''false''"
    by (simp add: example_model_def example_options_def)
  have n: "split_first ''Negative electrode'' = Inr ''Negative''"
    and s: "split_first ''Separator'' = Inr ''Separator''"
    and p: "split_first ''Positive electrode'' = Inr ''Positive''"
    by code_simp+
  have dp: "\<forall>d\<in>set (whole_cell_domains (options example_model)).
              \<exists>w dp. split_first d = Inr w \<and> domain_params (param example_model) w = Some dp"
    by (simp add: example_model_def example_options_def example_param_def n s p)
  have apart: "\<forall>d flag k. example_helper '' porosity change'' d flag (k @ '' porosity'') = None"
    by (simp add: example_helper_apart)
  have wcd: "set (whole_cell_domains (options example_model)) =
      {''Negative electrode'', ''Separator'', ''Positive electrode''}"
    by (simp add: example_model_def example_options_def)
  have po: "param example_model = example_param" "options example_model = example_options"
    by (simp_all add: example_model_def)
  from constant_porosity_zero_contribution
         [OF sp pp dp, of "example_helper '' porosity''" "example_helper '' porosity change''"
            "\<lambda>k. k @ '' porosity change''" "\<lambda>k. k @ '' porosity''"]
  obtain self' sub eps depsdt vars where
    r: "set_porosity_submodel example_model = Inr self'"
    and sub: "sub = Porosity_Constant (param example_model) (options example_model)"
    and m: "map_of (submodels self') ''porosity'' = Some sub"
    and g: "get_fundamental_variables (example_helper '' porosity'')
              (example_helper '' porosity change'') sub = Inr vars"
    and c: "publishes (example_helper '' porosity change'') (\<lambda>k. k @ '' porosity change'') \<longrightarrow>
             (\<forall>d\<in>set (whole_cell_domains (options example_model)).
                vars (d @ '' porosity change'')
                  = Some (FullBroadcast (Scalar 0) d ''current collector''))"
    and q: "publishes (example_helper '' porosity'') (\<lambda>k. k @ '' porosity'')
             \<and> (\<forall>d flag k. example_helper '' porosity change'' d flag (k @ '' porosity'') = None)
             \<longrightarrow> (\<forall>d\<in>set (whole_cell_domains (options example_model)).
                \<exists>w dp. split_first d = Inr w \<and> domain_params (param example_model) w = Some dp
                  \<and> vars (d @ '' porosity'') = Some (epsilon_init dp))"
    by (elim exE conjE)
  have mem: "''Separator'' \<in> set (whole_cell_domains (options example_model))"
    "''Negative electrode'' \<in> set (whole_cell_domains (options example_model))"
    by (simp_all add: wcd)
  from c example_helper_publishes have cv:
    "\<forall>d\<in>set (whole_cell_domains (options example_model)).
        vars (d @ '' porosity change'') = Some (FullBroadcast (Scalar 0) d ''current collector'')"
    by blast
  from q example_helper_publishes apart have qv:
    "\<forall>d\<in>set (whole_cell_domains (options example_model)).
        \<exists>w dp. split_first d = Inr w \<and> domain_params (param example_model) w = Some dp
          \<and> vars (d @ '' porosity'') = Some (epsilon_init dp)"
    by blast
  from cv mem(1) have sep: "vars (''Separator'' @ '' porosity change'') =
      Some (FullBroadcast (Scalar 0) ''Separator'' ''current collector'')"
    by blast
  from cv mem(2) have neg: "vars (''Negative electrode'' @ '' porosity change'') =
      Some (FullBroadcast (Scalar 0) ''Negative electrode'' ''current collector'')"
    by blast
  from qv mem(2) have "\<exists>w dp. split_first ''Negative electrode'' = Inr w
                 \<and> domain_params (param example_model) w = Some dp
                 \<and> vars (''Negative electrode'' @ '' porosity'') = Some (epsilon_init dp)"
    by blast
  then have negp: "vars (''Negative electrode'' @ '' porosity'') = Some (Parameter ''eps_n_init'')"
    unfolding n po by (auto simp: example_param_def)
  from r m g sep neg negp show ?thesis
    unfolding sub po by auto
qed



subsection \<open>Finite volumes: bounds on sine and cosine\<close>

lemma sin_cubic_bound: "\<bar>sin x - x\<bar> \<le> \<bar>x\<bar> ^ 3 / 6" for x :: real
proof -
  have "(\<Sum>m<3. sin_coeff m * x ^ m) = x"
    by (simp add: sin_coeff_def eval_nat_numeral)
  with Maclaurin_sin_bound [of x 3] show ?thesis
    by (simp add: fact_numeral)
qed

lemma cos_quadratic_bound: "\<bar>cos x - 1\<bar> \<le> x\<^sup>2 / 2" for x :: real
proof -
  have "cos x = 1 - 2 * (sin (x / 2))\<^sup>2"
    using cos_double_sin [of "x / 2"] by simp
  moreover have "(sin (x / 2))\<^sup>2 \<le> (x / 2)\<^sup>2"
    using abs_sin_x_le_abs_x [of "x / 2"] by (simp add: abs_le_square_iff [symmetric])
  ultimately show ?thesis by (simp add: power2_eq_square)
qed

lemma sinc_bound:
  fixes d :: real
  assumes "0 < d"
  shows "\<bar>sin d / d - 1\<bar> \<le> d\<^sup>2 / 6"
proof -
  have "sin d / d - 1 = (sin d - d) / d" using assms by (simp add: field_simps)
  then have "\<bar>sin d / d - 1\<bar> = \<bar>sin d - d\<bar> / d" using assms by simp
  also have "\<dots> \<le> (\<bar>d\<bar> ^ 3 / 6) / d"
    using assms sin_cubic_bound [of d] by (intro divide_right_mono) simp_all
  also have "\<dots> = d\<^sup>2 / 6" using assms by (simp add: power3_eq_cube power2_eq_square)
  finally show ?thesis .
qed


lemma sinc_le_one:
  fixes d :: real
  assumes "0 < d"
  shows "\<bar>sin d / d\<bar> \<le> 1"
  using assms abs_sin_x_le_abs_x [of d] by simp

lemma abs_mult_le:
  fixes a b :: real
  assumes "\<bar>a\<bar> \<le> A" "\<bar>b\<bar> \<le> B"
  shows "\<bar>a * b\<bar> \<le> A * B"
proof -
  have "0 \<le> A" using assms(1) by linarith
  then show ?thesis
    unfolding abs_mult using assms by (intro mult_mono) simp_all
qed

lemma sin_lower_cubic:
  fixes x :: real
  assumes "0 \<le> x"
  shows "x - x ^ 3 / 6 \<le> sin x"
proof -
  have "\<bar>x\<bar> = x" using assms by simp
  with sin_cubic_bound [of x] have "\<bar>sin x - x\<bar> \<le> x ^ 3 / 6" by simp
  then show ?thesis by linarith
qed

paragraph \<open>Gradient at an interior face\<close>

lemma sin_sq_diff: "(sin (x + d))\<^sup>2 - (sin (x - d))\<^sup>2 = sin (2 * x) * sin (2 * d)" for x d :: real
  unfolding sin_double sin_add sin_diff
  by (simp add: power2_eq_square algebra_simps)

lemma grad_interior_bound:
  fixes x d :: real
  assumes "0 < d"
  shows "\<bar>((sin (x + d))\<^sup>2 - (sin (x - d))\<^sup>2) / (2 * d) - 2 * sin x * cos x\<bar> \<le> 2 * d\<^sup>2 / 3"
proof -
  have "2 * sin x * cos x = sin (2 * x)" by (simp only: sin_double)
  then have "((sin (x + d))\<^sup>2 - (sin (x - d))\<^sup>2) / (2 * d) - 2 * sin x * cos x
        = sin (2 * x) * (sin (2 * d) / (2 * d) - 1)"
    unfolding sin_sq_diff by (simp only: right_diff_distrib mult_1_right times_divide_eq_right)
  moreover have "\<bar>sin (2 * x) * (sin (2 * d) / (2 * d) - 1)\<bar> \<le> 1 * ((2 * d)\<^sup>2 / 6)"
    using assms by (intro abs_mult_le sinc_bound) simp_all
  ultimately show ?thesis by (simp add: power2_eq_square)
qed

paragraph \<open>Gradient at the left boundary\<close>

lemma grad_left_bounds:
  fixes d :: real
  assumes "0 < d" "d \<le> 1"
  shows "d / 2 \<le> (sin d)\<^sup>2 / d" and "(sin d)\<^sup>2 / d \<le> d"
proof -
  have lo: "5 / 6 * d \<le> sin d"
  proof -
    have "d ^ 3 \<le> d" using assms by (simp add: power_le_one_iff power3_eq_cube mult_le_one mult_left_le)
    with sin_lower_cubic [of d] assms show ?thesis by simp
  qed
  have hi: "sin d \<le> d" using assms by (simp add: sin_x_le_x)
  have pos: "0 \<le> sin d" using lo assms by linarith
  have "(5 / 6 * d)\<^sup>2 \<le> (sin d)\<^sup>2"
    using lo assms by (intro power_mono) simp_all
  moreover have "d\<^sup>2 / 2 \<le> (5 / 6 * d)\<^sup>2" by (simp add: power2_eq_square)
  ultimately have "d\<^sup>2 / 2 \<le> (sin d)\<^sup>2" by linarith
  then show "d / 2 \<le> (sin d)\<^sup>2 / d"
    using assms by (simp add: field_simps power2_eq_square)
  have "(sin d)\<^sup>2 \<le> d\<^sup>2" using hi pos by (intro power_mono) simp_all
  then show "(sin d)\<^sup>2 / d \<le> d"
    using assms by (simp add: field_simps power2_eq_square)
qed


paragraph \<open>Gradient at the right boundary\<close>

lemma cos_two_upper: "cos (2::real) \<le> - 7 / 18"
proof -
  have "5 / 6 \<le> sin (1::real)" using sin_lower_cubic [of 1] by simp
  then have "(5 / 6)\<^sup>2 \<le> (sin (1::real))\<^sup>2" by (intro power_mono) simp_all
  moreover have "cos (2::real) = 1 - 2 * (sin 1)\<^sup>2" using cos_double_sin [of "1::real"] by simp
  ultimately show ?thesis by (simp add: power2_eq_square)
qed

lemma grad_right_identity:
  fixes d :: real
  assumes "0 < d"
  shows "((sin 1)\<^sup>2 - (sin (1 - d))\<^sup>2) / d - 2 * sin 1 * cos 1
       = sin (2 - d) * (sin d / d - 1) + sin 2 * (cos d - 1) + (- cos 2) * sin d"
proof -
  have a: "(sin 1)\<^sup>2 - (sin (1 - d))\<^sup>2 = sin (2 - d) * sin d"
    using sin_sq_diff [of "1 - d / 2" "d / 2"] by (simp add: algebra_simps)
  have b: "2 * sin 1 * cos 1 = sin (2::real)" using sin_double [of "1::real"] by simp
  have c: "sin (2 - d) - sin 2 = sin 2 * (cos d - 1) + (- cos 2) * sin d"
    unfolding sin_diff by (simp add: algebra_simps)
  have "((sin 1)\<^sup>2 - (sin (1 - d))\<^sup>2) / d - 2 * sin 1 * cos 1
        = sin (2 - d) * (sin d / d) - sin 2"
    unfolding a b by simp
  also have "\<dots> = sin (2 - d) * (sin d / d - 1) + (sin (2 - d) - sin 2)"
    by (simp add: algebra_simps)
  also have "\<dots> = sin (2 - d) * (sin d / d - 1) + sin 2 * (cos d - 1) + (- cos 2) * sin d"
    unfolding c by simp
  finally show ?thesis .
qed

lemma grad_right_bounds:
  fixes d :: real
  assumes "0 < d" "d \<le> 1 / 6"
  shows "d / 5 \<le> ((sin 1)\<^sup>2 - (sin (1 - d))\<^sup>2) / d - 2 * sin 1 * cos 1"
    and "((sin 1)\<^sup>2 - (sin (1 - d))\<^sup>2) / d - 2 * sin 1 * cos 1 \<le> 2 * d"
proof -
  let ?A = "sin (2 - d) * (sin d / d - 1)"
  let ?B = "sin 2 * (cos d - 1)"
  let ?C = "(- cos 2) * sin d"
  have A: "\<bar>?A\<bar> \<le> 1 * (d\<^sup>2 / 6)"
    using assms by (intro abs_mult_le sinc_bound) simp_all
  have B: "\<bar>?B\<bar> \<le> 1 * (d\<^sup>2 / 2)"
    by (intro abs_mult_le cos_quadratic_bound) simp_all
  have d3: "d ^ 3 \<le> d"
    using assms by (simp add: power3_eq_cube mult_le_one mult_left_le)
  have lo: "5 / 6 * d \<le> sin d" using sin_lower_cubic [of d] d3 assms by simp
  have hi: "sin d \<le> d" using assms by (simp add: sin_x_le_x)
  have c2: "7 / 18 \<le> - cos (2::real)" using cos_two_upper by simp
  have c2': "- cos (2::real) \<le> 1" using cos_ge_minus_one [of "2::real"] by simp
  have "7 / 18 * (5 / 6 * d) \<le> ?C"
    using c2 lo assms by (intro mult_mono) simp_all
  then have Clo: "35 / 108 * d \<le> ?C" by simp
  have pos: "0 \<le> sin d" using lo assms by linarith
  have "?C \<le> 1 * d"
    using c2' hi pos by (intro mult_mono) simp_all
  then have Chi: "?C \<le> d" by simp
  have dd: "d\<^sup>2 \<le> d / 6"
    using assms mult_left_mono [of d "1 / 6" d] by (simp add: power2_eq_square)
  have E: "((sin 1)\<^sup>2 - (sin (1 - d))\<^sup>2) / d - 2 * sin 1 * cos 1 = ?A + ?B + ?C"
    using assms(1) by (rule grad_right_identity)
  show "d / 5 \<le> ((sin 1)\<^sup>2 - (sin (1 - d))\<^sup>2) / d - 2 * sin 1 * cos 1"
    unfolding E using A B Clo dd by linarith
  show "((sin 1)\<^sup>2 - (sin (1 - d))\<^sup>2) / d - 2 * sin 1 * cos 1 \<le> 2 * d"
    unfolding E using A B Chi dd assms by linarith
qed

paragraph \<open>Divergence in Cartesian coordinates\<close>

lemma cart_div_identity:
  fixes x d :: real
  assumes "0 < d"
  shows "((x + d)\<^sup>2 * cos (x + d) - (x - d)\<^sup>2 * cos (x - d)) / (2 * d)
           - x * (2 * cos x - x * sin x)
       = 2 * x * (cos x * (cos d - 1)) - x\<^sup>2 * (sin x * (sin d / d - 1))
           - d\<^sup>2 * (sin x * (sin d / d))"
  unfolding cos_add cos_diff using assms
  by (simp add: field_simps power2_eq_square)

lemma cart_div_bound:
  fixes x d :: real
  assumes "0 < d" "\<bar>x\<bar> \<le> 1"
  shows "\<bar>((x + d)\<^sup>2 * cos (x + d) - (x - d)\<^sup>2 * cos (x - d)) / (2 * d)
           - x * (2 * cos x - x * sin x)\<bar> \<le> 13 / 6 * d\<^sup>2"
proof -
  have T1: "\<bar>cos x * (cos d - 1)\<bar> \<le> 1 * (d\<^sup>2 / 2)"
    by (intro abs_mult_le cos_quadratic_bound) simp_all
  have T2: "\<bar>sin x * (sin d / d - 1)\<bar> \<le> 1 * (d\<^sup>2 / 6)"
    using assms by (intro abs_mult_le sinc_bound) simp_all
  have T3: "\<bar>sin x * (sin d / d)\<bar> \<le> 1 * 1"
    using assms by (intro abs_mult_le sinc_le_one) simp_all
  have x2: "x\<^sup>2 \<le> 1" using assms by (simp add: abs_square_le_1)
  have U1: "\<bar>2 * x * (cos x * (cos d - 1))\<bar> \<le> (2 * 1) * (d\<^sup>2 / 2)"
    using T1 assms by (intro abs_mult_le) simp_all
  have U2: "\<bar>x\<^sup>2 * (sin x * (sin d / d - 1))\<bar> \<le> 1 * (d\<^sup>2 / 6)"
    using T2 x2 by (intro abs_mult_le) simp_all
  have U3: "\<bar>d\<^sup>2 * (sin x * (sin d / d))\<bar> \<le> d\<^sup>2 * 1"
    using T3 by (intro abs_mult_le) simp_all
  show ?thesis
    unfolding cart_div_identity [OF assms(1)] using U1 U2 U3 by linarith
qed


paragraph \<open>Divergence in spherical coordinates\<close>

lemma sph_cancel:
  fixes a b Na Nb :: real
  shows "(Nb * (4 * pi * b\<^sup>2) - Na * (4 * pi * a\<^sup>2)) / (4 * pi * ((b ^ 3 - a ^ 3) / 3))
       = 3 * (Nb * b\<^sup>2 - Na * a\<^sup>2) / (b ^ 3 - a ^ 3)"
proof -
  have "(Nb * (4 * pi * b\<^sup>2) - Na * (4 * pi * a\<^sup>2)) = (4 * pi) * (Nb * b\<^sup>2 - Na * a\<^sup>2)"
    by (simp add: algebra_simps)
  moreover have "(4 * pi) * X / (4 * pi * Y) = X / Y" for X Y :: real
    by simp
  ultimately have "(Nb * (4 * pi * b\<^sup>2) - Na * (4 * pi * a\<^sup>2)) / (4 * pi * ((b ^ 3 - a ^ 3) / 3))
      = (Nb * b\<^sup>2 - Na * a\<^sup>2) / ((b ^ 3 - a ^ 3) / 3)"
    by (simp only:)
  then show ?thesis by simp
qed

lemma cube_diff: "(r + d) ^ 3 - (r - d) ^ 3 = 6 * d * (r\<^sup>2 + d\<^sup>2 / 3)" for r d :: real
  by (simp add: power3_eq_cube power2_eq_square algebra_simps)

lemma sph_quad_identity:
  fixes r d :: real
  assumes "0 < d" "0 < r"
  shows "(3 * ((r + d)\<^sup>2 * sin (r + d) * (r + d)\<^sup>2 - (r - d)\<^sup>2 * sin (r - d) * (r - d)\<^sup>2)
            / ((r + d) ^ 3 - (r - d) ^ 3)
          - (4 * r * sin r + r\<^sup>2 * cos r)) * (r\<^sup>2 + d\<^sup>2 / 3)
       = 4 * (r\<^sup>2 + d\<^sup>2) * ((r * sin r) * (cos d - 1))
         + 8 / 3 * d\<^sup>2 * (r * sin r)
         + ((r\<^sup>2)\<^sup>2 + 6 * r\<^sup>2 * d\<^sup>2 + (d\<^sup>2)\<^sup>2) * (cos r * (sin d / d - 1))
         + (17 / 3 * r\<^sup>2 * d\<^sup>2 + (d\<^sup>2)\<^sup>2) * cos r"
proof -
  let ?Q = "r\<^sup>2 + d\<^sup>2 / 3"
  have Q: "0 < ?Q" using assms by (simp add: add_pos_nonneg)
  let ?num = "(r + d)\<^sup>2 * sin (r + d) * (r + d)\<^sup>2 - (r - d)\<^sup>2 * sin (r - d) * (r - d)\<^sup>2"
  have num: "?num = 2 * d * (4 * r * (r\<^sup>2 + d\<^sup>2) * (sin r * cos d)
                 + ((r\<^sup>2)\<^sup>2 + 6 * r\<^sup>2 * d\<^sup>2 + (d\<^sup>2)\<^sup>2) * (cos r * (sin d / d)))"
    unfolding sin_add sin_diff using assms
    by (simp add: field_simps power2_eq_square)
  have "3 * X / (6 * d * ?Q) * ?Q = X / (2 * d)" for X :: real
    using Q assms by simp
  then have "3 * ?num / ((r + d) ^ 3 - (r - d) ^ 3) * ?Q = ?num / (2 * d)"
    unfolding cube_diff .
  also have "\<dots> = 4 * r * (r\<^sup>2 + d\<^sup>2) * (sin r * cos d)
                 + ((r\<^sup>2)\<^sup>2 + 6 * r\<^sup>2 * d\<^sup>2 + (d\<^sup>2)\<^sup>2) * (cos r * (sin d / d))"
    unfolding num using assms by simp
  finally have ap: "3 * ?num / ((r + d) ^ 3 - (r - d) ^ 3) * ?Q
      = 4 * r * (r\<^sup>2 + d\<^sup>2) * (sin r * cos d)
         + ((r\<^sup>2)\<^sup>2 + 6 * r\<^sup>2 * d\<^sup>2 + (d\<^sup>2)\<^sup>2) * (cos r * (sin d / d))" .
  show ?thesis
    unfolding left_diff_distrib ap
    by (simp add: algebra_simps power2_eq_square)
qed


lemma sph_quad_poly:
  fixes u v :: real
  assumes "0 \<le> v" "v \<le> u" "u \<le> 1"
  shows "4 * (u + v) * (u * (v / 2)) + 8 / 3 * v * u + (u\<^sup>2 + 6 * u * v + v\<^sup>2) * (1 * (v / 6))
          + (17 / 3 * u * v + v\<^sup>2) * 1 \<le> 44 / 3 * (u * v)"
proof -
  have u0: "0 \<le> u" and v1: "v \<le> 1" using assms by linarith+
  have uv: "0 \<le> u * v" using u0 assms by simp
  have f1: "u * (u * v) \<le> u * v"
    using mult_right_mono [OF assms(3) uv] by simp
  have f2: "v * (u * v) \<le> u * v"
    using mult_right_mono [OF v1 uv] by simp
  have f4: "v * v \<le> u * v"
    using mult_right_mono [OF assms(2) assms(1)] by simp
  have "v * (v * v) \<le> 1 * (v * v)"
    using v1 assms(1) by (intro mult_right_mono) simp_all
  with f4 have f3: "v * (v * v) \<le> u * v" by simp
  show ?thesis
    using f1 f2 f3 f4 by (simp add: algebra_simps power2_eq_square)
qed

lemma sph_quad_bound:
  fixes r d :: real
  assumes "0 < d" "d \<le> r" "r \<le> 1"
  shows "\<bar>3 * ((r + d)\<^sup>2 * sin (r + d) * (r + d)\<^sup>2 - (r - d)\<^sup>2 * sin (r - d) * (r - d)\<^sup>2)
            / ((r + d) ^ 3 - (r - d) ^ 3)
          - (4 * r * sin r + r\<^sup>2 * cos r)\<bar> \<le> 44 / 3 * d\<^sup>2"
proof -
  let ?E = "3 * ((r + d)\<^sup>2 * sin (r + d) * (r + d)\<^sup>2 - (r - d)\<^sup>2 * sin (r - d) * (r - d)\<^sup>2)
            / ((r + d) ^ 3 - (r - d) ^ 3)
          - (4 * r * sin r + r\<^sup>2 * cos r)"
  let ?Q = "r\<^sup>2 + d\<^sup>2 / 3"
  have r0: "0 < r" using assms by linarith
  have Q: "0 < ?Q" using r0 by (simp add: add_pos_nonneg)
  define u v w where "u = r\<^sup>2" and "v = d\<^sup>2" and "w = r * sin r"
  have v0: "0 \<le> v" by (simp add: v_def)
  have vu: "v \<le> u" unfolding u_def v_def using assms by (intro power_mono) simp_all
  have u1: "u \<le> 1" unfolding u_def using assms r0 by (simp add: power_le_one)
  have u0: "0 \<le> u" by (simp add: u_def)
  have w: "\<bar>w\<bar> \<le> u"
  proof -
    have "\<bar>r * sin r\<bar> \<le> r * r"
      using abs_sin_x_le_abs_x [of r] r0 by (intro abs_mult_le) simp_all
    then show ?thesis by (simp add: w_def u_def power2_eq_square)
  qed
  have k: "\<bar>cos d - 1\<bar> \<le> v / 2" unfolding v_def by (rule cos_quadratic_bound)
  have s: "\<bar>sin d / d - 1\<bar> \<le> v / 6" unfolding v_def using assms(1) by (rule sinc_bound)
  have T1: "\<bar>4 * (u + v) * (w * (cos d - 1))\<bar> \<le> 4 * (u + v) * (u * (v / 2))"
    using u0 v0 w k by (intro abs_mult_le) simp_all
  have T2: "\<bar>8 / 3 * v * w\<bar> \<le> 8 / 3 * v * u"
    using v0 w by (intro abs_mult_le) simp_all
  have T3: "\<bar>(u\<^sup>2 + 6 * u * v + v\<^sup>2) * (cos r * (sin d / d - 1))\<bar>
              \<le> (u\<^sup>2 + 6 * u * v + v\<^sup>2) * (1 * (v / 6))"
    using u0 v0 s by (intro abs_mult_le) simp_all
  have T4: "\<bar>(17 / 3 * u * v + v\<^sup>2) * cos r\<bar> \<le> (17 / 3 * u * v + v\<^sup>2) * 1"
    using u0 v0 by (intro abs_mult_le) simp_all
  have id: "?E * ?Q = 4 * (u + v) * (w * (cos d - 1)) + 8 / 3 * v * w
         + (u\<^sup>2 + 6 * u * v + v\<^sup>2) * (cos r * (sin d / d - 1))
         + (17 / 3 * u * v + v\<^sup>2) * cos r"
    unfolding u_def v_def w_def using assms(1) r0 by (rule sph_quad_identity)
  have "\<bar>?E * ?Q\<bar> \<le> 44 / 3 * (u * v)"
    unfolding id using T1 T2 T3 T4 sph_quad_poly [OF v0 vu u1] by linarith
  also have "\<dots> \<le> 44 / 3 * v * ?Q"
  proof -
    have "u * v \<le> ?Q * v" using v0 by (intro mult_right_mono) (simp_all add: u_def)
    then show ?thesis by (simp add: algebra_simps)
  qed
  finally have "\<bar>?E\<bar> * ?Q \<le> 44 / 3 * v * ?Q"
    using Q by (simp add: abs_mult)
  then have "\<bar>?E\<bar> \<le> 44 / 3 * v" using Q by simp
  then show ?thesis by (simp add: v_def)
qed


lemma sph_lin_identity:
  fixes r d :: real
  assumes "0 < d" "0 < r"
  shows "(3 * ((r + d) * sin (r + d) * (r + d)\<^sup>2 - (r - d) * sin (r - d) * (r - d)\<^sup>2)
            / ((r + d) ^ 3 - (r - d) ^ 3)
          - (3 * sin r + r * cos r)) * (r\<^sup>2 + d\<^sup>2 / 3)
       = 3 * (r\<^sup>2 + d\<^sup>2 / 3) * (sin r * (cos d - 1))
         + (r\<^sup>2 + 3 * d\<^sup>2) * (r * (cos r * (sin d / d - 1)))
         + 8 / 3 * d\<^sup>2 * (r * cos r)"
proof -
  let ?Q = "r\<^sup>2 + d\<^sup>2 / 3"
  have Q: "0 < ?Q" using assms by (simp add: add_pos_nonneg)
  let ?num = "(r + d) * sin (r + d) * (r + d)\<^sup>2 - (r - d) * sin (r - d) * (r - d)\<^sup>2"
  have num: "?num = 2 * d * (3 * ?Q * (sin r * cos d)
                 + (r\<^sup>2 + 3 * d\<^sup>2) * (r * (cos r * (sin d / d))))"
    unfolding sin_add sin_diff using assms
    by (simp add: field_simps power2_eq_square)
  have "3 * X / (6 * d * ?Q) * ?Q = X / (2 * d)" for X :: real
    using Q assms by simp
  then have "3 * ?num / ((r + d) ^ 3 - (r - d) ^ 3) * ?Q = ?num / (2 * d)"
    unfolding cube_diff .
  also have "\<dots> = 3 * ?Q * (sin r * cos d)
                 + (r\<^sup>2 + 3 * d\<^sup>2) * (r * (cos r * (sin d / d)))"
    unfolding num using assms by simp
  finally have ap: "3 * ?num / ((r + d) ^ 3 - (r - d) ^ 3) * ?Q
      = 3 * ?Q * (sin r * cos d) + (r\<^sup>2 + 3 * d\<^sup>2) * (r * (cos r * (sin d / d)))" .
  have "(3 * ?num / ((r + d) ^ 3 - (r - d) ^ 3) - (3 * sin r + r * cos r)) * ?Q
      = 3 * ?num / ((r + d) ^ 3 - (r - d) ^ 3) * ?Q - (3 * sin r + r * cos r) * ?Q"
    by (rule left_diff_distrib)
  also have "\<dots> = 3 * ?Q * (sin r * cos d) + (r\<^sup>2 + 3 * d\<^sup>2) * (r * (cos r * (sin d / d)))
      - (3 * sin r + r * cos r) * ?Q"
    by (simp only: ap)
  also have "\<dots> = 3 * ?Q * (sin r * (cos d - 1))
         + (r\<^sup>2 + 3 * d\<^sup>2) * (r * (cos r * (sin d / d - 1)))
         + 8 / 3 * d\<^sup>2 * (r * cos r)"
    by (simp add: algebra_simps power2_eq_square)
  finally show ?thesis .
qed

lemma sph_lin_poly:
  fixes r d :: real
  assumes "0 < d" "d \<le> r" "r \<le> 1"
  shows "3 * (r\<^sup>2 + d\<^sup>2 / 3) * (1 * (d\<^sup>2 / 2)) + (r\<^sup>2 + 3 * d\<^sup>2) * (r * (1 * (d\<^sup>2 / 6)))
          + 8 / 3 * d\<^sup>2 * (r * 1) \<le> 17 / 3 * d * (r\<^sup>2 + d\<^sup>2 / 3)"
proof -
  let ?Q = "r\<^sup>2 + d\<^sup>2 / 3"
  have r0: "0 < r" and d1: "d \<le> 1" using assms by linarith+
  have Q: "0 \<le> ?Q" by simp
  have dQ: "0 \<le> d * ?Q" using assms Q by simp
  have g1: "d * (d * ?Q) \<le> d * ?Q"
    using mult_right_mono [OF d1 dQ] by simp
  have rd: "r * d \<le> 1" using assms r0 by (simp add: mult_le_one)
  have "(r\<^sup>2 + 3 * d\<^sup>2) * (r * d) \<le> (9 * ?Q) * 1"
    using rd r0 assms by (intro mult_mono) simp_all
  then have "((r\<^sup>2 + 3 * d\<^sup>2) * (r * d)) * d \<le> (9 * ?Q) * d"
    using assms by (intro mult_right_mono) simp_all
  then have g2: "(r\<^sup>2 + 3 * d\<^sup>2) * (r * (1 * (d\<^sup>2 / 6))) \<le> 3 / 2 * (d * ?Q)"
    by (simp add: power2_eq_square algebra_simps)
  have "d * r \<le> r * r" using assms r0 by (intro mult_right_mono) simp_all
  then have "d * r \<le> r\<^sup>2" by (simp add: power2_eq_square)
  then have "d * r \<le> ?Q" using zero_le_power2 [of d] by linarith
  then have "d * (d * r) \<le> d * ?Q" using assms by (intro mult_left_mono) simp_all
  then have g3: "8 / 3 * d\<^sup>2 * (r * 1) \<le> 8 / 3 * (d * ?Q)"
    by (simp add: power2_eq_square)
  have g1': "3 * ?Q * (1 * (d\<^sup>2 / 2)) \<le> 3 / 2 * (d * ?Q)"
    using g1 by (simp add: power2_eq_square algebra_simps)
  from g1' g2 g3 show ?thesis by linarith
qed

lemma sph_lin_bound:
  fixes r d :: real
  assumes "0 < d" "d \<le> r" "r \<le> 1"
  shows "\<bar>3 * ((r + d) * sin (r + d) * (r + d)\<^sup>2 - (r - d) * sin (r - d) * (r - d)\<^sup>2)
            / ((r + d) ^ 3 - (r - d) ^ 3)
          - (3 * sin r + r * cos r)\<bar> \<le> 17 / 3 * d"
proof -
  let ?E = "3 * ((r + d) * sin (r + d) * (r + d)\<^sup>2 - (r - d) * sin (r - d) * (r - d)\<^sup>2)
            / ((r + d) ^ 3 - (r - d) ^ 3)
          - (3 * sin r + r * cos r)"
  let ?Q = "r\<^sup>2 + d\<^sup>2 / 3"
  have r0: "0 < r" using assms by linarith
  have Q: "0 < ?Q" using r0 by (simp add: add_pos_nonneg)
  have T1: "\<bar>3 * ?Q * (sin r * (cos d - 1))\<bar> \<le> 3 * ?Q * (1 * (d\<^sup>2 / 2))"
    using Q by (intro abs_mult_le cos_quadratic_bound) simp_all
  have T2: "\<bar>(r\<^sup>2 + 3 * d\<^sup>2) * (r * (cos r * (sin d / d - 1)))\<bar>
              \<le> (r\<^sup>2 + 3 * d\<^sup>2) * (r * (1 * (d\<^sup>2 / 6)))"
    using r0 assms(1) by (intro abs_mult_le sinc_bound) simp_all
  have T3: "\<bar>8 / 3 * d\<^sup>2 * (r * cos r)\<bar> \<le> 8 / 3 * d\<^sup>2 * (r * 1)"
    using r0 by (intro abs_mult_le) simp_all
  have "\<bar>?E * ?Q\<bar> \<le> 17 / 3 * d * ?Q"
    unfolding sph_lin_identity [OF assms(1) r0]
    using T1 T2 T3 sph_lin_poly [OF assms] by linarith
  then have "\<bar>?E\<bar> * ?Q \<le> 17 / 3 * d * ?Q"
    using Q by (simp add: abs_mult)
  then show ?thesis using Q by simp
qed

lemma sph_lin_first_cell:
  fixes h :: real
  assumes "0 < h" "h \<le> 1"
  shows "h / 2 \<le> 3 * sin h - (3 * sin (h / 2) + h / 2 * cos (h / 2))"
proof -
  have h3: "h ^ 3 \<le> h"
    using assms by (simp add: power3_eq_cube mult_le_one mult_left_le)
  have a: "h - h ^ 3 / 6 \<le> sin h" using assms by (intro sin_lower_cubic) simp
  have b: "sin (h / 2) \<le> h / 2" using assms by (intro sin_x_le_x) simp
  have "h / 2 * cos (h / 2) \<le> h / 2 * 1"
    using assms by (intro mult_left_mono) simp_all
  with a b h3 show ?thesis by linarith
qed

text \<open>
  The two stencils for a flux that is not named: the central difference of a flux with a
  bounded third derivative, and the spherical stencil of a flux whose exact divergence
  is Lipschitz continuous.
\<close>

lemma central_difference_bound:
  fixes N N1 N2 N3 :: "real \<Rightarrow> real"
  assumes d: "0 < d" and lo: "0 \<le> r - d" and hi: "r + d \<le> 1"
      and D1: "\<And>x. 0 \<le> x \<Longrightarrow> x \<le> 1 \<Longrightarrow> DERIV N x :> N1 x"
      and D2: "\<And>x. 0 \<le> x \<Longrightarrow> x \<le> 1 \<Longrightarrow> DERIV N1 x :> N2 x"
      and D3: "\<And>x. 0 \<le> x \<Longrightarrow> x \<le> 1 \<Longrightarrow> DERIV N2 x :> N3 x"
      and M: "\<And>x. 0 \<le> x \<Longrightarrow> x \<le> 1 \<Longrightarrow> \<bar>N3 x\<bar> \<le> M"
  shows "\<bar>(N (r + d) - N (r - d)) / (2 * d) - N1 r\<bar> \<le> M * d\<^sup>2 / 6"
proof -
  define diff :: "nat \<Rightarrow> real \<Rightarrow> real" where
    "diff = (\<lambda>m t. if m = 0 then N (r + t) - N (r - t)
                   else if m = 1 then N1 (r + t) + N1 (r - t)
                   else if m = 2 then N2 (r + t) - N2 (r - t)
                   else N3 (r + t) + N3 (r - t))"
  have der: "DERIV (diff m) t :> diff (Suc m) t" if m: "m < 3" and t: "0 \<le> t" "t \<le> d" for m t
  proof -
    have p: "0 \<le> r + t" "r + t \<le> 1" and q: "0 \<le> r - t" "r - t \<le> 1"
      using t lo hi d by linarith+
    have sh: "DERIV (\<lambda>t. r + t) t :> 1" "DERIV (\<lambda>t. r - t) t :> - 1"
      by (auto intro!: derivative_eq_intros)
    have plus: "DERIV (\<lambda>t. f (r + t)) t :> f' (r + t)" if "DERIV f (r + t) :> f' (r + t)"
      for f f' :: "real \<Rightarrow> real"
      using DERIV_chain' [OF sh(1) that] by simp
    have minus: "DERIV (\<lambda>t. f (r - t)) t :> - f' (r - t)" if "DERIV f (r - t) :> f' (r - t)"
      for f f' :: "real \<Rightarrow> real"
      using DERIV_chain' [OF sh(2) that] by simp
    consider "m = 0" | "m = 1" | "m = 2" using m by linarith
    then show ?thesis
    proof cases
      case 1
      have "DERIV (\<lambda>t. N (r + t) - N (r - t)) t :> N1 (r + t) - - N1 (r - t)"
        by (intro DERIV_diff plus minus D1 p q)
      then show ?thesis by (simp add: diff_def 1)
    next
      case 2
      have "DERIV (\<lambda>t. N1 (r + t) + N1 (r - t)) t :> N2 (r + t) + - N2 (r - t)"
        by (intro DERIV_add plus minus D2 p q)
      then show ?thesis by (simp add: diff_def 2)
    next
      case 3
      have "DERIV (\<lambda>t. N2 (r + t) - N2 (r - t)) t :> N3 (r + t) - - N3 (r - t)"
        by (intro DERIV_diff plus minus D3 p q)
      then show ?thesis by (simp add: diff_def 3)
    qed
  qed
  have "\<exists>t. 0 < t \<and> t < d \<and>
          diff 0 d = (\<Sum>m<3. diff m 0 / fact m * d ^ m) + diff 3 t / fact 3 * d ^ 3"
    using der d by (intro Maclaurin) auto
  then obtain t where t: "0 < t" "t < d"
    and eq: "diff 0 d = (\<Sum>m<3. diff m 0 / fact m * d ^ m) + diff 3 t / fact 3 * d ^ 3"
    by (elim exE conjE)
  have s: "(\<Sum>m<3. diff m 0 / fact m * d ^ m) = 2 * N1 r * d"
    by (simp add: diff_def eval_nat_numeral)
  have "N (r + d) - N (r - d) = 2 * N1 r * d + (N3 (r + t) + N3 (r - t)) / 6 * d ^ 3"
    using eq unfolding s by (simp add: diff_def fact_numeral)
  then have e: "(N (r + d) - N (r - d)) / (2 * d) - N1 r = (N3 (r + t) + N3 (r - t)) * d\<^sup>2 / 12"
    using d by (simp add: field_simps power2_eq_square power3_eq_cube)
  have b: "\<bar>N3 (r + t) + N3 (r - t)\<bar> \<le> 2 * M"
  proof -
    have "\<bar>N3 (r + t)\<bar> \<le> M" "\<bar>N3 (r - t)\<bar> \<le> M"
      using t lo hi by (intro M; linarith)+
    then show ?thesis by linarith
  qed
  have "\<bar>(N3 (r + t) + N3 (r - t)) * d\<^sup>2 / 12\<bar> = \<bar>N3 (r + t) + N3 (r - t)\<bar> * d\<^sup>2 / 12"
    by (simp add: abs_mult)
  also have "\<dots> \<le> 2 * M * d\<^sup>2 / 12"
    using b by (intro divide_right_mono mult_right_mono) simp_all
  finally show ?thesis unfolding e by simp
qed

lemma spherical_cell_bound:
  fixes S D :: "real \<Rightarrow> real"
  assumes d: "0 < d" and lo: "d \<le> r" and hi: "r + d \<le> 1"
      and F: "\<And>x. 0 \<le> x \<Longrightarrow> x \<le> 1 \<Longrightarrow> DERIV (\<lambda>x. x\<^sup>2 * S x) x :> x\<^sup>2 * D x"
      and L: "\<And>x y. 0 \<le> x \<Longrightarrow> x \<le> 1 \<Longrightarrow> 0 \<le> y \<Longrightarrow> y \<le> 1 \<Longrightarrow> \<bar>D x - D y\<bar> \<le> L * \<bar>x - y\<bar>"
  shows "\<bar>3 * (S (r + d) * (r + d)\<^sup>2 - S (r - d) * (r - d)\<^sup>2) / ((r + d) ^ 3 - (r - d) ^ 3) - D r\<bar>
           \<le> L * d"
proof -
  define a where "a = r - d"
  define b where "b = r + d"
  define V where "V = b ^ 3 - a ^ 3"
  define K where "K = 3 * (S b * b\<^sup>2 - S a * a\<^sup>2) / V"
  define H where "H = (\<lambda>x. x\<^sup>2 * S x - K * x ^ 3 / 3)"
  have ab: "a < b" "0 \<le> a" "b \<le> 1" using d lo hi by (simp_all add: a_def b_def)
  have V: "V = 6 * d * (r\<^sup>2 + d\<^sup>2 / 3)" unfolding V_def a_def b_def by (rule cube_diff)
  have "0 < r\<^sup>2 + d\<^sup>2 / 3" using d by (intro add_nonneg_pos) simp_all
  then have V0: "0 < V" unfolding V using d by simp
  have derH: "DERIV H x :> x\<^sup>2 * D x - K * x\<^sup>2" if "a \<le> x" "x \<le> b" for x
  proof -
    have x: "0 \<le> x" "x \<le> 1" using that ab by linarith+
    have "DERIV (\<lambda>x. x\<^sup>2 * S x - K * x ^ 3 / 3) x :> x\<^sup>2 * D x - K * (3 * x\<^sup>2) / 3"
      by (intro DERIV_diff F x) (auto intro!: derivative_eq_intros simp: power2_eq_square)
    then show ?thesis by (simp add: H_def)
  qed
  from MVT2 [OF ab(1), of H "\<lambda>x. x\<^sup>2 * D x - K * x\<^sup>2"] derH
  obtain z where z: "a < z" "z < b" and mv: "H b - H a = (b - a) * (z\<^sup>2 * D z - K * z\<^sup>2)"
    by blast
  have "H b - H a = (S b * b\<^sup>2 - S a * a\<^sup>2) - K * V / 3"
    by (simp add: H_def V_def field_simps)
  also have "\<dots> = 0" using V0 by (simp add: K_def)
  finally have "(b - a) * (z\<^sup>2 * D z - K * z\<^sup>2) = 0" using mv by simp
  moreover have "b - a \<noteq> 0" using ab(1) by simp
  ultimately have "z\<^sup>2 * D z - K * z\<^sup>2 = 0" by (simp only: mult_eq_0_iff) simp
  then have "(D z - K) * z\<^sup>2 = 0" by (simp add: left_diff_distrib mult.commute)
  moreover have "0 < z" using z ab by linarith
  then have "z\<^sup>2 \<noteq> 0" by simp
  ultimately have "D z - K = 0" by (metis mult_eq_0_iff)
  then have K: "K = D z" by simp
  have zr: "\<bar>z - r\<bar> \<le> d" using z by (simp add: a_def b_def abs_le_iff)
  have "0 \<le> L"
  proof -
    have "\<bar>D 0 - D 1\<bar> \<le> L * \<bar>0 - 1\<bar>" by (intro L) simp_all
    then show ?thesis by simp
  qed
  have "\<bar>D z - D r\<bar> \<le> L * \<bar>z - r\<bar>"
    using z ab d lo hi by (intro L) (simp_all add: a_def b_def)
  also have "\<dots> \<le> L * d" using zr \<open>0 \<le> L\<close> by (intro mult_left_mono)
  finally have "\<bar>K - D r\<bar> \<le> L * d" unfolding K .
  then show ?thesis unfolding K_def V_def a_def b_def .
qed

subsection \<open>Finite volumes: the meshes of the tests\<close>

lemma uniform_lengths [simp]:
  "length (nodes (uniform_submesh a b n cs)) = n"
  "length (edges (uniform_submesh a b n cs)) = Suc n"
  by (simp_all add: uniform_submesh_def)

lemma uniform_node:
  "i < n \<Longrightarrow> nodes (uniform_submesh a b n cs) ! i = a + (real i + 1 / 2) * ((b - a) / real n)"
  by (simp add: uniform_submesh_def)

lemma uniform_edge:
  "i \<le> n \<Longrightarrow> edges (uniform_submesh a b n cs) ! i = a + real i * ((b - a) / real n)"
  by (simp add: uniform_submesh_def del: upt_Suc)

lemma uniform_coord [simp]: "coord_sys (uniform_submesh a b n cs) = cs"
  by (simp add: uniform_submesh_def)

lemma tl_map_upt: "tl (map f [0..<Suc n]) = map (\<lambda>i. f (Suc i)) [0..<n]"
  by (simp add: upt_conv_Cons map_Suc_upt [symmetric] del: upt_Suc)

lemma whole_cell_nodes:
  assumes "0 < n"
  shows "nodes (uniform_submesh 0 (1 / 3) n Cartesian)
         @ nodes (uniform_submesh (1 / 3) (2 / 3) n Cartesian)
         @ nodes (uniform_submesh (2 / 3) 1 n Cartesian)
       = nodes (uniform_submesh 0 1 (3 * n) Cartesian)"
proof (rule nth_equalityI)
  show "length (nodes (uniform_submesh 0 (1 / 3) n Cartesian)
         @ nodes (uniform_submesh (1 / 3) (2 / 3) n Cartesian)
         @ nodes (uniform_submesh (2 / 3) 1 n Cartesian))
       = length (nodes (uniform_submesh 0 1 (3 * n) Cartesian))"
    by simp
next
  fix i
  assume "i < length (nodes (uniform_submesh 0 (1 / 3) n Cartesian)
         @ nodes (uniform_submesh (1 / 3) (2 / 3) n Cartesian)
         @ nodes (uniform_submesh (2 / 3) 1 n Cartesian))"
  then have i: "i < 3 * n" by simp
  consider "i < n" | "n \<le> i" "i < 2 * n" | "2 * n \<le> i" by linarith
  then show "(nodes (uniform_submesh 0 (1 / 3) n Cartesian)
         @ nodes (uniform_submesh (1 / 3) (2 / 3) n Cartesian)
         @ nodes (uniform_submesh (2 / 3) 1 n Cartesian)) ! i
       = nodes (uniform_submesh 0 1 (3 * n) Cartesian) ! i"
  proof cases
    case 1
    then show ?thesis using assms i
      by (simp add: nth_append uniform_node field_simps)
  next
    case 2
    then have "i - n < n" by linarith
    with 2 show ?thesis using assms i
      by (simp add: nth_append uniform_node of_nat_diff field_simps)
  next
    case 3
    then have "i - n - n < n" using i by linarith
    with 3 show ?thesis using assms i
      by (simp add: nth_append uniform_node of_nat_diff field_simps)
  qed
qed


lemma whole_cell_edges:
  assumes "0 < n"
  shows "edges (uniform_submesh 0 (1 / 3) n Cartesian)
         @ tl (edges (uniform_submesh (1 / 3) (2 / 3) n Cartesian)
               @ tl (edges (uniform_submesh (2 / 3) 1 n Cartesian)))
       = edges (uniform_submesh 0 1 (3 * n) Cartesian)"
    (is "?l = ?r")
proof -
  let ?e1 = "\<lambda>i. 0 + real i * ((1 / 3 - 0) / real n)"
  let ?e2 = "\<lambda>i. 1 / 3 + real (Suc i) * ((2 / 3 - 1 / 3) / real n)"
  let ?e3 = "\<lambda>i. 2 / 3 + real (Suc i) * ((1 - 2 / 3) / real n)"
  have t: "tl (edges (uniform_submesh a b n cs))
         = map (\<lambda>i. a + real (Suc i) * ((b - a) / real n)) [0..<n]" for a b cs
    by (simp only: uniform_submesh_def submesh.simps tl_map_upt)
  have ne: "edges (uniform_submesh a b n cs) \<noteq> []" for a b cs
    using uniform_lengths(2) [of a b n cs] by (metis length_0_conv nat.distinct(1))
  have "?l = edges (uniform_submesh 0 (1 / 3) n Cartesian)
         @ tl (edges (uniform_submesh (1 / 3) (2 / 3) n Cartesian))
         @ tl (edges (uniform_submesh (2 / 3) 1 n Cartesian))"
    using ne by (simp add: tl_append2)
  then have l: "?l = map ?e1 [0..<Suc n] @ map ?e2 [0..<n] @ map ?e3 [0..<n]"
    unfolding t by (simp only: uniform_submesh_def submesh.simps)
  show ?thesis
  proof (rule nth_equalityI)
    show "length ?l = length ?r" unfolding l by simp
  next
    fix i assume "i < length ?l"
    then have i: "i \<le> 3 * n" unfolding l by simp
    consider "i \<le> n" | "n < i" "i \<le> 2 * n" | "2 * n < i" by linarith
    then show "?l ! i = ?r ! i"
    proof cases
      case 1
      then show ?thesis unfolding l using assms i
        by (simp add: nth_append uniform_edge field_simps del: upt_Suc)
    next
      case 2
      then have "i - Suc n < n" by linarith
      with 2 show ?thesis unfolding l using assms i
        by (simp add: nth_append uniform_edge of_nat_diff field_simps del: upt_Suc)
    next
      case 3
      then have "i - Suc n - n < n" "\<not> i - Suc n < n" "\<not> i < Suc n" using i by linarith+
      with 3 show ?thesis unfolding l using assms i
        by (simp add: nth_append uniform_edge of_nat_diff field_simps del: upt_Suc)
    qed
  qed
qed

lemma whole_cell_combined:
  assumes "0 < n"
  shows "combine_submeshes (get_mesh_for_testing n) whole_cell
       = Inr (uniform_submesh 0 1 (3 * n) Cartesian)"
proof -
  have "combine_submeshes (get_mesh_for_testing n) whole_cell
      = Inr \<lparr>nodes = nodes (uniform_submesh 0 (1 / 3) n Cartesian)
                @ nodes (uniform_submesh (1 / 3) (2 / 3) n Cartesian)
                @ nodes (uniform_submesh (2 / 3) 1 n Cartesian),
              edges = edges (uniform_submesh 0 (1 / 3) n Cartesian)
                @ tl (edges (uniform_submesh (1 / 3) (2 / 3) n Cartesian)
                      @ tl (edges (uniform_submesh (2 / 3) 1 n Cartesian))),
              coord_sys = Cartesian\<rparr>"
    by (simp add: combine_submeshes_def get_mesh_for_testing_def whole_cell_def Let_def)
  also have "\<dots> = Inr (uniform_submesh 0 1 (3 * n) Cartesian)"
    unfolding whole_cell_nodes [OF assms] whole_cell_edges [OF assms]
    by (simp add: uniform_submesh_def)
  finally show ?thesis .
qed


lemma norm_inf_le:
  assumes "0 \<le> B" "\<forall>x\<in>set xs. \<bar>x\<bar> \<le> B"
  shows "norm_inf xs \<le> B"
  using assms(2) unfolding norm_inf_def
  by (induction xs) (simp_all add: assms(1))

lemma norm_inf_ge:
  assumes "x \<in> set xs"
  shows "\<bar>x\<bar> \<le> norm_inf xs"
  using assms unfolding norm_inf_def
  by (induction xs) auto

lemma vec_diff_length [simp]: "length (vec_diff xs ys) = min (length xs) (length ys)"
  by (simp add: vec_diff_def)

lemma vec_diff_nth:
  "i < length xs \<Longrightarrow> i < length ys \<Longrightarrow> vec_diff xs ys ! i = xs ! i - ys ! i"
  by (simp add: vec_diff_def)

lemma grad_errors:
  assumes "0 < n"
  defines "N \<equiv> 3 * n"
  defines "d \<equiv> 1 / (2 * real N)"
  shows "\<exists>errs. grad_get_error n = Inr errs
          \<and> length errs = Suc N
          \<and> errs ! 0 = (sin d)\<^sup>2 / d
          \<and> (\<forall>k. 1 \<le> k \<and> k < N \<longrightarrow>
                errs ! k = ((sin (real k / real N + d))\<^sup>2 - (sin (real k / real N - d))\<^sup>2) / (2 * d)
                             - 2 * sin (real k / real N) * cos (real k / real N))
          \<and> errs ! N = ((sin 1)\<^sup>2 - (sin (1 - d))\<^sup>2) / d - 2 * sin 1 * cos 1"
proof -
  let ?m = "uniform_submesh 0 1 N Cartesian"
  let ?y = "map (\<lambda>x. (sin x)\<^sup>2) (nodes ?m)"
  let ?gl = "(?y ! 0 - 0) / (nodes ?m ! 0 - edges ?m ! 0)"
  let ?gr = "((sin 1)\<^sup>2 - ?y ! (N - 1)) / (edges ?m ! N - nodes ?m ! (N - 1))"
  let ?int = "map (\<lambda>i. (?y ! Suc i - ?y ! i) / (nodes ?m ! Suc i - nodes ?m ! i)) [0..<N - 1]"
  let ?approx = "[?gl] @ ?int @ [?gr]"
  let ?exact = "map (\<lambda>x. 2 * sin x * cos x) (edges ?m)"
  let ?errs = "vec_diff ?approx ?exact"
  have N: "0 < N" using assms by simp
  have dN: "real N * d = 1 / 2" "d * real N = 1 / 2" using N by (simp_all add: d_def)
  have d0: "0 < d" using N by (simp add: d_def)
  have ne: "nodes ?m \<noteq> []" using N uniform_lengths(1) [of 0 1 N Cartesian] by fastforce
  have g: "gradient ?m ?y (Some (Dirichlet 0, Dirichlet ((sin 1)\<^sup>2))) = Inr ?approx"
    using ne by (simp add: gradient_def Let_def)
  have run: "grad_get_error n = Inr ?errs"
    unfolding grad_get_error_def whole_cell_combined [OF assms(1)] N_def [symmetric]
    by (simp only: sum.case Let_def g)
  have len: "length ?errs = Suc N" using N by simp
  have la: "length ?approx = Suc N" using N by simp
  have e0: "?errs ! 0 = (sin d)\<^sup>2 / d"
  proof -
    have "nodes ?m ! 0 = d" using N by (simp add: uniform_node d_def)
    moreover have "edges ?m ! 0 = 0" by (simp add: uniform_edge)
    ultimately show ?thesis using N
      by (simp add: vec_diff_nth)
  qed
  have eN: "?errs ! N = ((sin 1)\<^sup>2 - (sin (1 - d))\<^sup>2) / d - 2 * sin 1 * cos 1"
  proof -
    have n1: "nodes ?m ! (N - 1) = 1 - d"
      using N by (simp add: uniform_node d_def of_nat_diff field_simps)
    have e1: "edges ?m ! N = 1" using N by (simp add: uniform_edge)
    have "?approx ! N = ?gr" using N
      by (simp add: nth_append nth_Cons')
    moreover have "?exact ! N = 2 * sin 1 * cos 1"
      using e1 by (simp del: upt_Suc)
    moreover have "?y ! (N - 1) = (sin (1 - d))\<^sup>2" using N n1 by simp
    ultimately show ?thesis using N n1 e1
      by (simp add: vec_diff_nth del: upt_Suc)
  qed
  have ek: "?errs ! k = ((sin (real k / real N + d))\<^sup>2 - (sin (real k / real N - d))\<^sup>2) / (2 * d)
                             - 2 * sin (real k / real N) * cos (real k / real N)"
    if k: "1 \<le> k \<and> k < N" for k
  proof -
    obtain i where i: "k = Suc i" using k by (cases k) auto
    have iN: "i < N - 1" "Suc i < N" "i < N" using k i by linarith+
    have a: "?approx ! k = (?y ! Suc i - ?y ! i) / (nodes ?m ! Suc i - nodes ?m ! i)"
      using iN unfolding i by (simp add: nth_append)
    have nS: "nodes ?m ! Suc i = real k / real N + d"
      using iN N unfolding i by (simp add: uniform_node d_def field_simps)
    have ni: "nodes ?m ! i = real k / real N - d"
      using iN N unfolding i by (simp add: uniform_node d_def field_simps)
    have ed: "edges ?m ! k = real k / real N"
      using k by (simp add: uniform_edge)
    have ex: "?exact ! k = 2 * sin (real k / real N) * cos (real k / real N)"
      using k ed by (simp del: upt_Suc)
    have yS: "?y ! Suc i = (sin (real k / real N + d))\<^sup>2" using iN nS by simp
    have yi: "?y ! i = (sin (real k / real N - d))\<^sup>2" using iN ni by simp
    have "?errs ! k = ?approx ! k - ?exact ! k"
      using k by (intro vec_diff_nth) (simp_all del: upt_Suc)
    then show ?thesis unfolding a ex yS yi nS ni by simp
  qed
  from run len e0 ek eN show ?thesis by blast
qed

subsection \<open>Finite volumes: convergence of the gradient and of the divergence\<close>

lemma interior_elements:
  assumes "x \<in> set (butlast (tl errs))"
  shows "\<exists>k. 1 \<le> k \<and> Suc k < length errs \<and> x = errs ! k"
proof -
  from assms obtain j where j: "j < length (butlast (tl errs))" and x: "x = butlast (tl errs) ! j"
    by (auto simp: in_set_conv_nth)
  from j have j': "Suc (Suc j) < length errs" by simp
  have "butlast (tl errs) ! j = tl errs ! j" using j by (simp add: nth_butlast)
  also have "\<dots> = errs ! Suc j" using j' by (simp add: nth_tl)
  finally show ?thesis using x j' by auto
qed

text \<open>
  C1: on the three-domain whole-cell mesh with \<open>n\<close> uniform cells per domain, the field
  \<open>y = sin(x)\<^sup>2\<close> and the Dirichlet values \<open>0\<close> and \<open>sin(1)\<^sup>2\<close>, the error of the
  finite-volume gradient against \<open>2 sin(x) cos(x)\<close> converges quadratically at the
  interior faces (the infinity norm of \<open>errs[1:-1]\<close> is at most \<open>1 / (27 n\<^sup>2)\<close>) and
  linearly, not quadratically, at each of the two boundary faces (the error there lies
  between \<open>1 / (12 n)\<close> and \<open>1 / (6 n)\<close> on the left, between \<open>1 / (30 n)\<close> and
  \<open>1 / (3 n)\<close> on the right). A rate \<open>p\<close> is read as the order of convergence, an error
  bounded by a constant times \<open>n\<close> to the power \<open>-p\<close>. The values are real numbers,
  where the test computes in double precision: the interior error of the exact stencil
  comes as close to \<open>1 / (54 n\<^sup>2)\<close> as one likes, and the bound stated is twice that, so
  that it leaves room for the rounding of the test on its mesh sizes \<open>100\<close> to \<open>3200\<close>
  (a rounding error of about \<open>1e-12\<close>, where \<open>1 / (54 n\<^sup>2)\<close> is above \<open>1e-9\<close>).
\<close>

theorem grad_convergence:
  assumes "0 < n"
  shows "\<exists>errs. grad_get_error n = Inr errs \<and> length errs = 3 * n + 1
          \<and> norm_inf (butlast (tl errs)) \<le> 1 / (27 * (real n)\<^sup>2)
          \<and> 1 / (12 * real n) \<le> \<bar>hd errs\<bar> \<and> \<bar>hd errs\<bar> \<le> 1 / (6 * real n)
          \<and> 1 / (30 * real n) \<le> \<bar>last errs\<bar> \<and> \<bar>last errs\<bar> \<le> 1 / (3 * real n)"
proof -
  define N where "N = 3 * n"
  define d where "d = 1 / (2 * real N)"
  from grad_errors [OF assms] obtain errs where
    run: "grad_get_error n = Inr errs"
    and len: "length errs = Suc N"
    and e0: "errs ! 0 = (sin d)\<^sup>2 / d"
    and ek: "\<And>k. 1 \<le> k \<and> k < N \<Longrightarrow>
                errs ! k = ((sin (real k / real N + d))\<^sup>2 - (sin (real k / real N - d))\<^sup>2) / (2 * d)
                             - 2 * sin (real k / real N) * cos (real k / real N)"
    and eN: "errs ! N = ((sin 1)\<^sup>2 - (sin (1 - d))\<^sup>2) / d - 2 * sin 1 * cos 1"
    unfolding N_def d_def by (elim exE conjE) blast
  have N: "0 < N" using assms by (simp add: N_def)
  have dn: "d = 1 / (6 * real n)" by (simp add: d_def N_def)
  have d0: "0 < d" using assms by (simp add: dn)
  have d6: "d \<le> 1 / 6" using assms by (simp add: dn field_simps)
  have d1: "d \<le> 1" using d6 by linarith
  have ne: "errs \<noteq> []" using len by auto
  have hd: "hd errs = (sin d)\<^sup>2 / d" using ne e0 by (simp add: hd_conv_nth)
  have last: "last errs = ((sin 1)\<^sup>2 - (sin (1 - d))\<^sup>2) / d - 2 * sin 1 * cos 1"
    using ne eN len by (simp add: last_conv_nth)
  have sq: "2 * d\<^sup>2 / 3 = 1 / (54 * (real n)\<^sup>2)"
    by (simp add: dn power2_eq_square)
  have margin: "1 / (54 * (real n)\<^sup>2) \<le> 1 / (27 * (real n)\<^sup>2)"
    using assms by (simp add: field_simps)
  have int: "norm_inf (butlast (tl errs)) \<le> 1 / (27 * (real n)\<^sup>2)"
  proof (rule norm_inf_le)
    show "0 \<le> 1 / (27 * (real n)\<^sup>2)" by simp
    show "\<forall>x\<in>set (butlast (tl errs)). \<bar>x\<bar> \<le> 1 / (27 * (real n)\<^sup>2)"
    proof
      fix x assume "x \<in> set (butlast (tl errs))"
      from interior_elements [OF this]
      obtain k where k: "1 \<le> k" "Suc k < length errs" and x: "x = errs ! k"
        by (elim exE conjE)
      from k len have "1 \<le> k \<and> k < N" by simp
      then have "errs ! k = ((sin (real k / real N + d))\<^sup>2 - (sin (real k / real N - d))\<^sup>2) / (2 * d)
                             - 2 * sin (real k / real N) * cos (real k / real N)"
        by (rule ek)
      then have "\<bar>errs ! k\<bar> \<le> 2 * d\<^sup>2 / 3"
        using grad_interior_bound [OF d0, of "real k / real N"] by (simp only:)
      then have "\<bar>x\<bar> \<le> 1 / (54 * (real n)\<^sup>2)" unfolding x sq .
      with margin show "\<bar>x\<bar> \<le> 1 / (27 * (real n)\<^sup>2)" by linarith
    qed
  qed
  have h2: "d / 2 = 1 / (12 * real n)" and h5: "d / 5 = 1 / (30 * real n)"
    and h1: "2 * d = 1 / (3 * real n)"
    by (simp_all add: dn)
  have lb: "d / 2 \<le> hd errs" "hd errs \<le> d"
    unfolding hd using grad_left_bounds [OF d0 d1] by blast+
  have rb: "d / 5 \<le> last errs" "last errs \<le> 2 * d"
    unfolding last using grad_right_bounds [OF d0 d6] by blast+
  have l1: "1 / (12 * real n) \<le> \<bar>hd errs\<bar>" and l2: "\<bar>hd errs\<bar> \<le> 1 / (6 * real n)"
    using lb d0 unfolding h2 [symmetric] dn [symmetric] by linarith+
  have r1: "1 / (30 * real n) \<le> \<bar>last errs\<bar>" and r2: "\<bar>last errs\<bar> \<le> 1 / (3 * real n)"
    using rb d0 unfolding h5 [symmetric] h1 [symmetric] by linarith+
  have len': "length errs = 3 * n + 1" using len by (simp add: N_def)
  from run len' int l1 l2 r1 r2 show ?thesis by blast
qed

theorem grad_convergence_witness:
  "\<exists>errs. grad_get_error 1 = Inr errs \<and> length errs = 4
     \<and> norm_inf (butlast (tl errs)) \<le> 1 / 27
     \<and> 1 / 12 \<le> \<bar>hd errs\<bar> \<and> \<bar>hd errs\<bar> \<le> 1 / 6
     \<and> 1 / 30 \<le> \<bar>last errs\<bar> \<and> \<bar>last errs\<bar> \<le> 1 / 3"
  using grad_convergence [of 1] by simp



lemma divergence_single:
  assumes "length (edges m) = Suc (length (nodes m))" "length N = length (edges m)"
  shows "divergence [m] N = Inr (divergence_1d m N)"
  using assms by (simp add: divergence_def Let_def)

lemma divergence_1d_length [simp]: "length (divergence_1d m N) = length (nodes m)"
  by (simp add: divergence_1d_def)

lemma divergence_1d_nth:
  assumes "i < length (nodes m)"
  shows "divergence_1d m N ! i =
           (N ! Suc i * face_area (coord_sys m) (edges m ! Suc i)
             - N ! i * face_area (coord_sys m) (edges m ! i))
           / cell_volume (coord_sys m) (edges m ! i) (edges m ! Suc i)"
  using assms by (simp add: divergence_1d_def)

lemma uniform_unit_cell:
  assumes "i < n"
  defines "d \<equiv> 1 / (2 * real n)"
  defines "r \<equiv> real (2 * i + 1) * d"
  shows "nodes (uniform_submesh 0 1 n cs) ! i = r"
    and "edges (uniform_submesh 0 1 n cs) ! i = r - d"
    and "edges (uniform_submesh 0 1 n cs) ! Suc i = r + d"
    and "0 < d" and "d \<le> r" and "r \<le> 1"
proof -
  have n: "0 < n" using assms by simp
  show "nodes (uniform_submesh 0 1 n cs) ! i = r"
    using assms(1) n by (simp add: uniform_node r_def d_def field_simps)
  show "edges (uniform_submesh 0 1 n cs) ! i = r - d"
    using assms(1) n by (simp add: uniform_edge r_def d_def field_simps)
  show "edges (uniform_submesh 0 1 n cs) ! Suc i = r + d"
    using assms(1) n by (simp add: uniform_edge r_def d_def field_simps)
  show d0: "0 < d" using n by (simp add: d_def)
  have "1 * d \<le> real (2 * i + 1) * d"
    using d0 by (intro mult_right_mono) simp_all
  then show "d \<le> r" by (simp add: r_def)
  have "real (2 * i + 1) \<le> 2 * real n" using assms(1) by simp
  then have "real (2 * i + 1) * d \<le> 2 * real n * d"
    using d0 by (intro mult_right_mono) simp_all
  then show "r \<le> 1" using n by (simp add: r_def d_def)
qed

lemma spherical_errors:
  assumes "i < n"
  defines "m \<equiv> uniform_submesh 0 1 n Spherical_polar"
  defines "d \<equiv> 1 / (2 * real n)"
  defines "r \<equiv> real (2 * i + 1) * d"
  shows "vec_diff (divergence_1d m (map f (edges m))) (map g (nodes m)) ! i
       = 3 * (f (r + d) * (r + d)\<^sup>2 - f (r - d) * (r - d)\<^sup>2) / ((r + d) ^ 3 - (r - d) ^ 3) - g r"
proof -
  have nd: "nodes m ! i = r" and e0: "edges m ! i = r - d" and e1: "edges m ! Suc i = r + d"
    unfolding m_def r_def d_def using uniform_unit_cell [OF assms(1)] by blast+
  have ln: "length (nodes m) = n" and le: "length (edges m) = Suc n" by (simp_all add: m_def)
  have cs: "coord_sys m = Spherical_polar" by (simp add: m_def)
  have "vec_diff (divergence_1d m (map f (edges m))) (map g (nodes m)) ! i
      = divergence_1d m (map f (edges m)) ! i - map g (nodes m) ! i"
    using assms(1) ln by (intro vec_diff_nth) simp_all
  also have "\<dots> = (f (r + d) * (4 * pi * (r + d)\<^sup>2) - f (r - d) * (4 * pi * (r - d)\<^sup>2))
                 / (4 * pi * (((r + d) ^ 3 - (r - d) ^ 3) / 3)) - g r"
    using assms(1) ln le
    by (simp add: divergence_1d_nth cs face_area_def cell_volume_def e0 e1 nd)
  finally show ?thesis unfolding sph_cancel .
qed

lemma spherical_run:
  assumes "0 < n"
  defines "m \<equiv> uniform_submesh 0 1 n Spherical_polar"
  shows "spherical_div_quadratic_get_error n =
           Inr (vec_diff (divergence_1d m (map (\<lambda>r. r\<^sup>2 * sin r) (edges m)))
                  (map (\<lambda>r. 4 * r * sin r + r\<^sup>2 * cos r) (nodes m)))"
    and "spherical_div_linear_get_error n =
           Inr (vec_diff (divergence_1d m (map (\<lambda>r. r * sin r) (edges m)))
                  (map (\<lambda>r. 3 * sin r + r * cos r) (nodes m)))"
  unfolding spherical_div_quadratic_get_error_def spherical_div_linear_get_error_def
  by (simp_all add: get_mesh_for_testing_def Let_def divergence_single m_def)

lemma spherical_quadratic_errors:
  assumes "0 < n"
  defines "m \<equiv> uniform_submesh 0 1 n Spherical_polar"
  defines "e \<equiv> vec_diff (divergence_1d m (map (\<lambda>r. r\<^sup>2 * sin r) (edges m)))
                  (map (\<lambda>r. 4 * r * sin r + r\<^sup>2 * cos r) (nodes m))"
  shows "spherical_div_quadratic_get_error n = Inr e"
    and "length e = n" and "norm_inf e \<le> 11 / (3 * (real n)\<^sup>2)"
proof -
  define d where "d = 1 / (2 * real n)"
  show "spherical_div_quadratic_get_error n = Inr e"
    unfolding e_def m_def using assms(1) by (rule spherical_run(1))
  show "length e = n" by (simp add: e_def m_def)
  have len: "length e = n" by (simp add: e_def m_def)
  have sq: "44 / 3 * d\<^sup>2 = 11 / (3 * (real n)\<^sup>2)"
    by (simp add: d_def power2_eq_square)
  show "norm_inf e \<le> 11 / (3 * (real n)\<^sup>2)"
  proof (rule norm_inf_le)
    show "0 \<le> 11 / (3 * (real n)\<^sup>2)" by simp
    show "\<forall>x\<in>set e. \<bar>x\<bar> \<le> 11 / (3 * (real n)\<^sup>2)"
    proof
      fix x assume "x \<in> set e"
      then obtain i where i: "i < length e" and x: "x = e ! i"
        by (auto simp: in_set_conv_nth)
      from i len have i': "i < n" by simp
      define r where "r = real (2 * i + 1) * d"
      have b: "0 < d" "d \<le> r" "r \<le> 1"
        unfolding r_def d_def using uniform_unit_cell [OF i'] by blast+
      have "e ! i = 3 * ((r + d)\<^sup>2 * sin (r + d) * (r + d)\<^sup>2
                              - (r - d)\<^sup>2 * sin (r - d) * (r - d)\<^sup>2)
                           / ((r + d) ^ 3 - (r - d) ^ 3) - (4 * r * sin r + r\<^sup>2 * cos r)"
        unfolding e_def m_def r_def d_def by (rule spherical_errors [OF i'])
      then have "\<bar>e ! i\<bar> \<le> 44 / 3 * d\<^sup>2"
        using sph_quad_bound [OF b] by (simp only:)
      then show "\<bar>x\<bar> \<le> 11 / (3 * (real n)\<^sup>2)" unfolding x sq .
    qed
  qed
qed

text \<open>
  C3: on the single spherical domain "negative particle" with \<open>n\<close> uniform cells and the
  face flux \<open>N = r\<^sup>2 sin(r)\<close>, the discretised divergence converges quadratically to
  \<open>4 r sin(r) + r\<^sup>2 cos(r)\<close> at the cell centres: the infinity norm of the error is at
  most \<open>11 / (3 n\<^sup>2)\<close>.
\<close>

theorem spherical_div_quadratic_convergence:
  assumes "0 < n"
  shows "\<exists>errs. spherical_div_quadratic_get_error n = Inr errs \<and> length errs = n
          \<and> norm_inf errs \<le> 11 / (3 * (real n)\<^sup>2)"
  using spherical_quadratic_errors [OF assms] by blast

theorem spherical_div_quadratic_convergence_witness:
  "\<exists>errs. spherical_div_quadratic_get_error 2 = Inr errs \<and> length errs = 2
     \<and> norm_inf errs \<le> 11 / 12"
  using spherical_div_quadratic_convergence [of 2] by simp

lemma cartesian_errors:
  assumes "i < n"
  defines "m \<equiv> uniform_submesh 0 1 n Cartesian"
  defines "d \<equiv> 1 / (2 * real n)"
  defines "r \<equiv> real (2 * i + 1) * d"
  shows "vec_diff (divergence_1d m (map f (edges m))) (map g (nodes m)) ! i
       = (f (r + d) - f (r - d)) / (2 * d) - g r"
proof -
  have nd: "nodes m ! i = r" and e0: "edges m ! i = r - d" and e1: "edges m ! Suc i = r + d"
    unfolding m_def r_def d_def using uniform_unit_cell [OF assms(1)] by blast+
  have ln: "length (nodes m) = n" and le: "length (edges m) = Suc n" by (simp_all add: m_def)
  have cs: "coord_sys m = Cartesian" by (simp add: m_def)
  have "vec_diff (divergence_1d m (map f (edges m))) (map g (nodes m)) ! i
      = divergence_1d m (map f (edges m)) ! i - map g (nodes m) ! i"
    using assms(1) ln by (intro vec_diff_nth) simp_all
  also have "\<dots> = (f (r + d) - f (r - d)) / (2 * d) - g r"
    using assms(1) ln le
    by (simp add: divergence_1d_nth cs face_area_def cell_volume_def e0 e1 nd)
  finally show ?thesis .
qed

lemma cartesian_run:
  assumes "0 < n"
  defines "m \<equiv> uniform_submesh 0 1 (3 * n) Cartesian"
  shows "cartesian_div_get_error n =
           Inr (vec_diff (divergence_1d m (map (\<lambda>x. x\<^sup>2 * cos x) (edges m)))
                  (map (\<lambda>x. x * (2 * cos x - x * sin x)) (nodes m)))"
  unfolding cartesian_div_get_error_def whole_cell_combined [OF assms(1)]
  by (simp add: Let_def divergence_single m_def)

lemma cartesian_div_bound:
  assumes "0 < n"
  shows "\<exists>errs. cartesian_div_get_error n = Inr errs \<and> length errs = 3 * n
          \<and> norm_inf errs \<le> 13 / (216 * (real n)\<^sup>2)"
proof -
  define N where "N = 3 * n"
  define m where "m = uniform_submesh 0 1 N Cartesian"
  define d where "d = 1 / (2 * real N)"
  let ?errs = "vec_diff (divergence_1d m (map (\<lambda>x. x\<^sup>2 * cos x) (edges m)))
                  (map (\<lambda>x. x * (2 * cos x - x * sin x)) (nodes m))"
  have run: "cartesian_div_get_error n = Inr ?errs"
    unfolding m_def N_def using assms by (rule cartesian_run)
  have len: "length ?errs = N" by (simp add: m_def)
  have sq: "13 / 6 * d\<^sup>2 = 13 / (216 * (real n)\<^sup>2)"
    by (simp add: d_def N_def power2_eq_square)
  have "norm_inf ?errs \<le> 13 / (216 * (real n)\<^sup>2)"
  proof (rule norm_inf_le)
    show "0 \<le> 13 / (216 * (real n)\<^sup>2)" by simp
    show "\<forall>x\<in>set ?errs. \<bar>x\<bar> \<le> 13 / (216 * (real n)\<^sup>2)"
    proof
      fix x assume "x \<in> set ?errs"
      then obtain i where i: "i < length ?errs" and x: "x = ?errs ! i"
        by (auto simp: in_set_conv_nth)
      from i len have i': "i < N" by simp
      define r where "r = real (2 * i + 1) * d"
      have b: "0 < d" "d \<le> r" "r \<le> 1"
        unfolding r_def d_def using uniform_unit_cell [OF i'] by blast+
      then have r1: "\<bar>r\<bar> \<le> 1" by linarith
      have "?errs ! i = ((r + d)\<^sup>2 * cos (r + d) - (r - d)\<^sup>2 * cos (r - d)) / (2 * d)
                          - r * (2 * cos r - r * sin r)"
        unfolding m_def r_def d_def by (rule cartesian_errors [OF i'])
      then have "\<bar>?errs ! i\<bar> \<le> 13 / 6 * d\<^sup>2"
        using cart_div_bound [OF b(1) r1] by (simp only:)
      then show "\<bar>x\<bar> \<le> 13 / (216 * (real n)\<^sup>2)" unfolding x sq .
    qed
  qed
  with run len show ?thesis unfolding N_def by blast
qed

lemma spherical_div_linear_bounds:
  assumes "0 < n"
  shows "\<exists>errs. spherical_div_linear_get_error n = Inr errs \<and> length errs = n
          \<and> 1 / (2 * real n) \<le> norm_inf errs \<and> norm_inf errs \<le> 17 / (6 * real n)"
proof -
  define m where "m = uniform_submesh 0 1 n Spherical_polar"
  define d where "d = 1 / (2 * real n)"
  let ?errs = "vec_diff (divergence_1d m (map (\<lambda>r. r * sin r) (edges m)))
                  (map (\<lambda>r. 3 * sin r + r * cos r) (nodes m))"
  have run: "spherical_div_linear_get_error n = Inr ?errs"
    unfolding m_def using assms by (rule spherical_run(2))
  have len: "length ?errs = n" by (simp add: m_def)
  have d0: "0 < d" using assms by (simp add: d_def)
  have lin: "17 / 3 * d = 17 / (6 * real n)" by (simp add: d_def)
  have nth: "?errs ! i = 3 * ((r + d) * sin (r + d) * (r + d)\<^sup>2
                              - (r - d) * sin (r - d) * (r - d)\<^sup>2)
                           / ((r + d) ^ 3 - (r - d) ^ 3) - (3 * sin r + r * cos r)"
    if "i < n" "r = real (2 * i + 1) * d" for i r
    unfolding m_def that(2) d_def by (rule spherical_errors [OF that(1)])
  have up: "norm_inf ?errs \<le> 17 / (6 * real n)"
  proof (rule norm_inf_le)
    show "0 \<le> 17 / (6 * real n)" by simp
    show "\<forall>x\<in>set ?errs. \<bar>x\<bar> \<le> 17 / (6 * real n)"
    proof
      fix x assume "x \<in> set ?errs"
      then obtain i where i: "i < length ?errs" and x: "x = ?errs ! i"
        by (auto simp: in_set_conv_nth)
      from i len have i': "i < n" by simp
      define r where "r = real (2 * i + 1) * d"
      have b: "0 < d" "d \<le> r" "r \<le> 1"
        unfolding r_def d_def using uniform_unit_cell [OF i'] by blast+
      have "\<bar>?errs ! i\<bar> \<le> 17 / 3 * d"
        using sph_lin_bound [OF b] unfolding nth [OF i' r_def] .
      then show "\<bar>x\<bar> \<le> 17 / (6 * real n)" unfolding x lin .
    qed
  qed
  have low: "1 / (2 * real n) \<le> norm_inf ?errs"
  proof -
    have "?errs ! 0 = 3 * ((d + d) * sin (d + d) * (d + d)\<^sup>2
                              - (d - d) * sin (d - d) * (d - d)\<^sup>2)
                           / ((d + d) ^ 3 - (d - d) ^ 3) - (3 * sin d + d * cos d)"
      using nth [OF assms, of d] by simp
    also have "\<dots> = 3 * sin (2 * d) - (3 * sin d + d * cos d)"
      using d0 by (simp add: power2_eq_square power3_eq_cube)
    finally have e0: "?errs ! 0 = 3 * sin (2 * d) - (3 * sin d + d * cos d)" .
    have h: "0 < 2 * d" "2 * d \<le> 1" using assms by (simp_all add: d_def)
    from sph_lin_first_cell [OF h] have "d \<le> ?errs ! 0" unfolding e0 by simp
    then have "d \<le> \<bar>?errs ! 0\<bar>" by linarith
    moreover have "?errs ! 0 \<in> set ?errs" using assms len by (intro nth_mem) simp
    then have "\<bar>?errs ! 0\<bar> \<le> norm_inf ?errs" by (rule norm_inf_ge)
    ultimately have "d \<le> norm_inf ?errs" by linarith
    then show ?thesis by (simp add: d_def)
  qed
  from run len low up show ?thesis by blast
qed

lemma cartesian_error_run:
  assumes "0 < n"
  defines "m \<equiv> uniform_submesh 0 1 (3 * n) Cartesian"
  shows "cartesian_div_error flux exact n =
           Inr (vec_diff (divergence_1d m (map flux (edges m))) (map exact (nodes m)))"
  unfolding cartesian_div_error_def whole_cell_combined [OF assms(1)]
  by (simp add: Let_def divergence_single m_def)

lemma spherical_error_run:
  assumes "0 < n"
  defines "m \<equiv> uniform_submesh 0 1 n Spherical_polar"
  shows "spherical_div_error flux exact n =
           Inr (vec_diff (divergence_1d m (map flux (edges m))) (map exact (nodes m)))"
  unfolding spherical_div_error_def
  by (simp add: get_mesh_for_testing_def Let_def divergence_single m_def)

lemma cartesian_div_error_bound:
  fixes N N1 N2 N3 :: "real \<Rightarrow> real"
  assumes n: "0 < n"
      and D1: "\<And>x. 0 \<le> x \<Longrightarrow> x \<le> 1 \<Longrightarrow> DERIV N x :> N1 x"
      and D2: "\<And>x. 0 \<le> x \<Longrightarrow> x \<le> 1 \<Longrightarrow> DERIV N1 x :> N2 x"
      and D3: "\<And>x. 0 \<le> x \<Longrightarrow> x \<le> 1 \<Longrightarrow> DERIV N2 x :> N3 x"
      and M: "\<And>x. 0 \<le> x \<Longrightarrow> x \<le> 1 \<Longrightarrow> \<bar>N3 x\<bar> \<le> M"
  shows "\<exists>errs. cartesian_div_error N N1 n = Inr errs \<and> length errs = 3 * n
          \<and> norm_inf errs \<le> M / (216 * (real n)\<^sup>2)"
proof -
  define K where "K = 3 * n"
  define m where "m = uniform_submesh 0 1 K Cartesian"
  define d where "d = 1 / (2 * real K)"
  let ?errs = "vec_diff (divergence_1d m (map N (edges m))) (map N1 (nodes m))"
  have run: "cartesian_div_error N N1 n = Inr ?errs"
    unfolding m_def K_def using n by (rule cartesian_error_run)
  have len: "length ?errs = K" by (simp add: m_def)
  have sq: "M * d\<^sup>2 / 6 = M / (216 * (real n)\<^sup>2)"
    by (simp add: d_def K_def power2_eq_square)
  have "\<bar>N3 0\<bar> \<le> M" by (intro M) simp_all
  then have M0: "0 \<le> M" by linarith
  have "norm_inf ?errs \<le> M / (216 * (real n)\<^sup>2)"
  proof (rule norm_inf_le)
    show "0 \<le> M / (216 * (real n)\<^sup>2)" using M0 by simp
    show "\<forall>x\<in>set ?errs. \<bar>x\<bar> \<le> M / (216 * (real n)\<^sup>2)"
    proof
      fix x assume "x \<in> set ?errs"
      then obtain i where i: "i < length ?errs" and x: "x = ?errs ! i"
        by (auto simp: in_set_conv_nth)
      from i len have i': "i < K" by simp
      define r where "r = real (2 * i + 1) * d"
      have b: "0 < d" "d \<le> r" "r \<le> 1"
        unfolding r_def d_def using uniform_unit_cell [OF i'] by blast+
      have hi: "r + d \<le> 1"
      proof -
        have "real (2 * i + 1) + 1 \<le> 2 * real K" using i' by simp
        then have "(real (2 * i + 1) + 1) * d \<le> 2 * real K * d"
          using b(1) by (intro mult_right_mono) simp_all
        moreover have "2 * real K * d = 1" using i' by (simp add: d_def)
        ultimately show ?thesis by (simp add: r_def algebra_simps)
      qed
      have lo: "0 \<le> r - d" using b by simp
      have "?errs ! i = (N (r + d) - N (r - d)) / (2 * d) - N1 r"
        unfolding m_def r_def d_def by (rule cartesian_errors [OF i'])
      then have "\<bar>?errs ! i\<bar> \<le> M * d\<^sup>2 / 6"
        using central_difference_bound [OF b(1) lo hi D1 D2 D3 M] by simp
      then show "\<bar>x\<bar> \<le> M / (216 * (real n)\<^sup>2)" unfolding x sq .
    qed
  qed
  with run len show ?thesis unfolding K_def by blast
qed

lemma spherical_div_error_bound:
  fixes S D :: "real \<Rightarrow> real"
  assumes n: "0 < n"
      and F: "\<And>x. 0 \<le> x \<Longrightarrow> x \<le> 1 \<Longrightarrow> DERIV (\<lambda>x. x\<^sup>2 * S x) x :> x\<^sup>2 * D x"
      and L: "\<And>x y. 0 \<le> x \<Longrightarrow> x \<le> 1 \<Longrightarrow> 0 \<le> y \<Longrightarrow> y \<le> 1 \<Longrightarrow> \<bar>D x - D y\<bar> \<le> L * \<bar>x - y\<bar>"
  shows "\<exists>errs. spherical_div_error S D n = Inr errs \<and> length errs = n
          \<and> norm_inf errs \<le> L / (2 * real n)"
proof -
  define m where "m = uniform_submesh 0 1 n Spherical_polar"
  define d where "d = 1 / (2 * real n)"
  let ?errs = "vec_diff (divergence_1d m (map S (edges m))) (map D (nodes m))"
  have run: "spherical_div_error S D n = Inr ?errs"
    unfolding m_def using n by (rule spherical_error_run)
  have len: "length ?errs = n" by (simp add: m_def)
  have lin: "L * d = L / (2 * real n)" by (simp add: d_def)
  have "\<bar>D 0 - D 1\<bar> \<le> L * \<bar>0 - 1\<bar>" by (intro L) simp_all
  then have L0: "0 \<le> L" by simp
  have "norm_inf ?errs \<le> L / (2 * real n)"
  proof (rule norm_inf_le)
    show "0 \<le> L / (2 * real n)" using L0 by simp
    show "\<forall>x\<in>set ?errs. \<bar>x\<bar> \<le> L / (2 * real n)"
    proof
      fix x assume "x \<in> set ?errs"
      then obtain i where i: "i < length ?errs" and x: "x = ?errs ! i"
        by (auto simp: in_set_conv_nth)
      from i len have i': "i < n" by simp
      define r where "r = real (2 * i + 1) * d"
      have b: "0 < d" "d \<le> r" "r \<le> 1"
        unfolding r_def d_def using uniform_unit_cell [OF i'] by blast+
      have hi: "r + d \<le> 1"
      proof -
        have "real (2 * i + 1) + 1 \<le> 2 * real n" using i' by simp
        then have "(real (2 * i + 1) + 1) * d \<le> 2 * real n * d"
          using b(1) by (intro mult_right_mono) simp_all
        moreover have "2 * real n * d = 1" using i' by (simp add: d_def)
        ultimately show ?thesis by (simp add: r_def algebra_simps)
      qed
      have "?errs ! i = 3 * (S (r + d) * (r + d)\<^sup>2 - S (r - d) * (r - d)\<^sup>2)
                           / ((r + d) ^ 3 - (r - d) ^ 3) - D r"
        unfolding m_def r_def d_def by (rule spherical_errors [OF i'])
      then have "\<bar>?errs ! i\<bar> \<le> L * d"
        using spherical_cell_bound [OF b(1) b(2) hi F L] by simp
      then show "\<bar>x\<bar> \<le> L / (2 * real n)" unfolding x lin .
    qed
  qed
  with run len show ?thesis by blast
qed

lemma test_fluxes_instances:
  "cartesian_div_get_error n =
     cartesian_div_error (\<lambda>x. x\<^sup>2 * cos x) (\<lambda>x. x * (2 * cos x - x * sin x)) n"
  "spherical_div_linear_get_error n =
     spherical_div_error (\<lambda>r. r * sin r) (\<lambda>r. 3 * sin r + r * cos r) n"
  "spherical_div_quadratic_get_error n =
     spherical_div_error (\<lambda>r. r\<^sup>2 * sin r) (\<lambda>r. 4 * r * sin r + r\<^sup>2 * cos r) n"
  by (simp_all add: cartesian_div_get_error_def cartesian_div_error_def
        spherical_div_linear_get_error_def spherical_div_quadratic_get_error_def
        spherical_div_error_def)

text \<open>
  C2, as amended: in Cartesian coordinates the error norm of the finite-volume divergence
  converges quadratically for every smooth flux, here every flux \<open>N\<close> that has three
  derivatives on \<open>[0, 1]\<close>, the third bounded by \<open>M\<close>: on the whole-cell mesh the norm is
  at most \<open>M / (216 n\<^sup>2)\<close>, and at most \<open>13 / (216 n\<^sup>2)\<close> for the flux \<open>x\<^sup>2 cos(x)\<close> of the
  test. In spherical coordinates it converges linearly for every flux \<open>S\<close> whose exact
  divergence \<open>D\<close> (the derivative of \<open>r\<^sup>2 S\<close> is \<open>r\<^sup>2 D\<close>) is Lipschitz continuous on
  \<open>[0, 1]\<close> with constant \<open>L\<close>: the norm is at most \<open>L / (2 n)\<close>; and for the smooth flux
  \<open>r sin(r)\<close>, with exact divergence \<open>3 sin(r) + r cos(r)\<close>, it converges no faster than
  that: the norm lies between \<open>1 / (2 n)\<close> and \<open>17 / (6 n)\<close>.
\<close>

theorem divergence_convergence_rates:
  fixes N N1 N2 N3 S D :: "real \<Rightarrow> real"
  assumes n: "0 < n"
      and D1: "\<And>x. 0 \<le> x \<Longrightarrow> x \<le> 1 \<Longrightarrow> DERIV N x :> N1 x"
      and D2: "\<And>x. 0 \<le> x \<Longrightarrow> x \<le> 1 \<Longrightarrow> DERIV N1 x :> N2 x"
      and D3: "\<And>x. 0 \<le> x \<Longrightarrow> x \<le> 1 \<Longrightarrow> DERIV N2 x :> N3 x"
      and M: "\<And>x. 0 \<le> x \<Longrightarrow> x \<le> 1 \<Longrightarrow> \<bar>N3 x\<bar> \<le> M"
      and F: "\<And>r. 0 \<le> r \<Longrightarrow> r \<le> 1 \<Longrightarrow> DERIV (\<lambda>r. r\<^sup>2 * S r) r :> r\<^sup>2 * D r"
      and L: "\<And>r s. 0 \<le> r \<Longrightarrow> r \<le> 1 \<Longrightarrow> 0 \<le> s \<Longrightarrow> s \<le> 1 \<Longrightarrow> \<bar>D r - D s\<bar> \<le> L * \<bar>r - s\<bar>"
  shows "(\<exists>errs. cartesian_div_error N N1 n = Inr errs \<and> length errs = 3 * n
            \<and> norm_inf errs \<le> M / (216 * (real n)\<^sup>2))
       \<and> (\<exists>errs. spherical_div_error S D n = Inr errs \<and> length errs = n
            \<and> norm_inf errs \<le> L / (2 * real n))
       \<and> cartesian_div_get_error n =
            cartesian_div_error (\<lambda>x. x\<^sup>2 * cos x) (\<lambda>x. x * (2 * cos x - x * sin x)) n
       \<and> (\<exists>errs. cartesian_div_get_error n = Inr errs \<and> length errs = 3 * n
            \<and> norm_inf errs \<le> 13 / (216 * (real n)\<^sup>2))
       \<and> spherical_div_linear_get_error n =
            spherical_div_error (\<lambda>r. r * sin r) (\<lambda>r. 3 * sin r + r * cos r) n
       \<and> (\<exists>errs. spherical_div_linear_get_error n = Inr errs \<and> length errs = n
            \<and> 1 / (2 * real n) \<le> norm_inf errs \<and> norm_inf errs \<le> 17 / (6 * real n))"
  using cartesian_div_error_bound [OF n D1 D2 D3 M]
        spherical_div_error_bound [OF n F L]
        test_fluxes_instances(1) [of n] cartesian_div_bound [OF n]
        test_fluxes_instances(2) [of n] spherical_div_linear_bounds [OF n]
  by (intro conjI)

theorem divergence_convergence_rates_witness:
  "(\<exists>errs. cartesian_div_error (\<lambda>x. x ^ 3) (\<lambda>x. 3 * x\<^sup>2) 1 = Inr errs \<and> length errs = 3
      \<and> norm_inf errs \<le> 1 / 36)
   \<and> (\<exists>errs. spherical_div_error (\<lambda>r. r\<^sup>2) (\<lambda>r. 4 * r) 1 = Inr errs \<and> length errs = 1
      \<and> norm_inf errs \<le> 2)
   \<and> (\<exists>errs. cartesian_div_get_error 1 = Inr errs \<and> length errs = 3
      \<and> norm_inf errs \<le> 13 / 216)
   \<and> (\<exists>errs. spherical_div_linear_get_error 1 = Inr errs \<and> length errs = 1
      \<and> 1 / 2 \<le> norm_inf errs \<and> norm_inf errs \<le> 17 / 6)"
proof -
  have n: "(0::nat) < 1" by simp
  have D1: "DERIV (\<lambda>x. x ^ 3) x :> 3 * x\<^sup>2" for x :: real
    by (auto intro!: derivative_eq_intros)
  have D2: "DERIV (\<lambda>x. 3 * x\<^sup>2) x :> 6 * x" for x :: real
    by (auto intro!: derivative_eq_intros)
  have D3: "DERIV (\<lambda>x. 6 * x) x :> 6" for x :: real
    by (auto intro!: derivative_eq_intros)
  have M: "\<bar>6 :: real\<bar> \<le> 6" by simp
  have F: "DERIV (\<lambda>r. r\<^sup>2 * r\<^sup>2) r :> r\<^sup>2 * (4 * r)" for r :: real
    by (auto intro!: derivative_eq_intros simp: power2_eq_square)
  have L: "\<bar>4 * r - 4 * s\<bar> \<le> 4 * \<bar>r - s\<bar>" for r s :: real
    by (simp only: right_diff_distrib [symmetric] abs_mult)
  note t = divergence_convergence_rates [of 1 "\<lambda>x. x ^ 3" "\<lambda>x. 3 * x\<^sup>2" "\<lambda>x. 6 * x" "\<lambda>x. 6" 6
         "\<lambda>r. r\<^sup>2" "\<lambda>r. 4 * r" 4, OF n D1 D2 D3 M F L]
  note c = t [THEN conjunct2, THEN conjunct2]
  from t [THEN conjunct1] t [THEN conjunct2, THEN conjunct1]
    c [THEN conjunct2, THEN conjunct1]
    c [THEN conjunct2, THEN conjunct2, THEN conjunct2]
  show ?thesis by simp
qed


lemma ns_values: "ns = [10, 20, 40, 80, 160, 320]"
  by code_simp

lemma rate_ge_two:
  assumes "0 < a" "0 < b" "2 \<le> log 2 (a / b)"
  shows "4 * b \<le> a"
proof -
  have "0 < a / b" using assms by simp
  with assms(3) have "2 powr 2 \<le> a / b" by (simp add: le_log_iff)
  moreover have "(2::real) powr 2 = 4" by simp
  ultimately show ?thesis using assms(2) by (simp add: field_simps)
qed

text \<open>
  C2, as stated, fails for the spherical flux \<open>N = r sin(r)\<close>: the error norm is not
  bounded by any constant times \<open>1 / n\<^sup>2\<close>, and on the mesh sizes of the test,
  \<open>10, 20, 40, 80, 160, 320\<close>, the five rates \<open>log2(err_norm[:-1] / err_norm[1:])\<close>
  are not all at least 2.
\<close>

theorem spherical_linear_flux_not_quadratic:
  "\<not> (\<exists>C. \<forall>n>0. \<exists>errs. spherical_div_linear_get_error n = Inr errs
          \<and> norm_inf errs \<le> C / (real n)\<^sup>2)
   \<and> \<not> (\<exists>norms. err_norm spherical_div_linear_get_error ns = Inr norms
          \<and> (\<forall>r\<in>set (rates norms). 2 \<le> r))"
proof (rule conjI)
  show "\<not> (\<exists>C. \<forall>n>0. \<exists>errs. spherical_div_linear_get_error n = Inr errs
          \<and> norm_inf errs \<le> C / (real n)\<^sup>2)"
  proof
    assume "\<exists>C. \<forall>n>0. \<exists>errs. spherical_div_linear_get_error n = Inr errs
            \<and> norm_inf errs \<le> C / (real n)\<^sup>2"
    then obtain C where "\<forall>n>0. \<exists>errs. spherical_div_linear_get_error n = Inr errs
            \<and> norm_inf errs \<le> C / (real n)\<^sup>2" by (elim exE)
    then have C: "\<exists>errs. spherical_div_linear_get_error n = Inr errs
            \<and> norm_inf errs \<le> C / (real n)\<^sup>2" if "0 < n" for n
      using that by simp
    obtain k :: nat where k: "2 * C < real k"
      using reals_Archimedean2 [of "2 * C"] by (elim exE)
    define n where "n = Suc k"
    have n0: "0 < n" and nC: "2 * C < real n" using k by (simp_all add: n_def)
    from C [OF n0] obtain errs where
      e: "spherical_div_linear_get_error n = Inr errs" and up: "norm_inf errs \<le> C / (real n)\<^sup>2"
      by (elim exE conjE)
    from spherical_div_linear_bounds [OF n0] obtain errs' where
      e': "spherical_div_linear_get_error n = Inr errs'"
      and low: "1 / (2 * real n) \<le> norm_inf errs'"
      by (elim exE conjE)
    from e e' have "errs' = errs" by simp
    with low up have "1 / (2 * real n) \<le> C / (real n)\<^sup>2" by simp
    then have "real n \<le> 2 * C"
      using n0 by (simp add: field_simps power2_eq_square)
    with nC show False by simp
  qed
next
  have b: "\<exists>errs. spherical_div_linear_get_error n = Inr errs
          \<and> 1 / (2 * real n) \<le> norm_inf errs \<and> norm_inf errs \<le> 17 / (6 * real n)"
    if "0 < n" for n
    using spherical_div_linear_bounds [OF that] by (elim exE conjE) blast
  have "\<exists>errs. spherical_div_linear_get_error 10 = Inr errs
          \<and> 1 / 20 \<le> norm_inf errs \<and> norm_inf errs \<le> 17 / 60"
    using b [of 10] by simp
  then obtain e0 where e0: "spherical_div_linear_get_error 10 = Inr e0"
      "1 / 20 \<le> norm_inf e0" "norm_inf e0 \<le> 17 / 60"
    by (elim exE conjE)
  have "\<exists>errs. spherical_div_linear_get_error 20 = Inr errs
          \<and> 1 / 40 \<le> norm_inf errs \<and> norm_inf errs \<le> 17 / 120"
    using b [of 20] by simp
  then obtain e1 where e1: "spherical_div_linear_get_error 20 = Inr e1"
      "1 / 40 \<le> norm_inf e1" "norm_inf e1 \<le> 17 / 120"
    by (elim exE conjE)
  have "\<exists>errs. spherical_div_linear_get_error 40 = Inr errs
          \<and> 1 / 80 \<le> norm_inf errs \<and> norm_inf errs \<le> 17 / 240"
    using b [of 40] by simp
  then obtain e2 where e2: "spherical_div_linear_get_error 40 = Inr e2"
      "1 / 80 \<le> norm_inf e2" "norm_inf e2 \<le> 17 / 240"
    by (elim exE conjE)
  have "\<exists>errs. spherical_div_linear_get_error 80 = Inr errs
          \<and> 1 / 160 \<le> norm_inf errs \<and> norm_inf errs \<le> 17 / 480"
    using b [of 80] by simp
  then obtain e3 where e3: "spherical_div_linear_get_error 80 = Inr e3"
      "1 / 160 \<le> norm_inf e3" "norm_inf e3 \<le> 17 / 480"
    by (elim exE conjE)
  have "\<exists>errs. spherical_div_linear_get_error 160 = Inr errs
          \<and> 1 / 320 \<le> norm_inf errs \<and> norm_inf errs \<le> 17 / 960"
    using b [of 160] by simp
  then obtain e4 where e4: "spherical_div_linear_get_error 160 = Inr e4"
      "1 / 320 \<le> norm_inf e4" "norm_inf e4 \<le> 17 / 960"
    by (elim exE conjE)
  have "\<exists>errs. spherical_div_linear_get_error 320 = Inr errs
          \<and> 1 / 640 \<le> norm_inf errs \<and> norm_inf errs \<le> 17 / 1920"
    using b [of 320] by simp
  then obtain e5 where e5: "spherical_div_linear_get_error 320 = Inr e5"
      "1 / 640 \<le> norm_inf e5" "norm_inf e5 \<le> 17 / 1920"
    by (elim exE conjE)
  let ?norms = "[norm_inf e0, norm_inf e1, norm_inf e2, norm_inf e3, norm_inf e4, norm_inf e5]"
  have run: "err_norm spherical_div_linear_get_error ns = Inr ?norms"
    unfolding ns_values by (simp add: e0(1) e1(1) e2(1) e3(1) e4(1) e5(1))
  have rs: "rates ?norms = [log 2 (norm_inf e0 / norm_inf e1), log 2 (norm_inf e1 / norm_inf e2),
      log 2 (norm_inf e2 / norm_inf e3), log 2 (norm_inf e3 / norm_inf e4),
      log 2 (norm_inf e4 / norm_inf e5)]"
    by (simp add: rates_def)
  show "\<not> (\<exists>norms. err_norm spherical_div_linear_get_error ns = Inr norms
          \<and> (\<forall>r\<in>set (rates norms). 2 \<le> r))"
  proof
    assume "\<exists>norms. err_norm spherical_div_linear_get_error ns = Inr norms
          \<and> (\<forall>r\<in>set (rates norms). 2 \<le> r)"
    then have all: "\<forall>r\<in>set (rates ?norms). 2 \<le> r" unfolding run by simp
    have p: "0 < norm_inf e0" "0 < norm_inf e1" "0 < norm_inf e2" "0 < norm_inf e3"
        "0 < norm_inf e4" "0 < norm_inf e5"
      using e0(2) e1(2) e2(2) e3(2) e4(2) e5(2) by linarith+
    from all have r: "2 \<le> log 2 (norm_inf e0 / norm_inf e1)"
        "2 \<le> log 2 (norm_inf e1 / norm_inf e2)" "2 \<le> log 2 (norm_inf e2 / norm_inf e3)"
        "2 \<le> log 2 (norm_inf e3 / norm_inf e4)" "2 \<le> log 2 (norm_inf e4 / norm_inf e5)"
      unfolding rs by simp_all
    have "4 * norm_inf e1 \<le> norm_inf e0" using p r by (intro rate_ge_two) simp_all
    moreover have "4 * norm_inf e2 \<le> norm_inf e1" using p r by (intro rate_ge_two) simp_all
    moreover have "4 * norm_inf e3 \<le> norm_inf e2" using p r by (intro rate_ge_two) simp_all
    moreover have "4 * norm_inf e4 \<le> norm_inf e3" using p r by (intro rate_ge_two) simp_all
    moreover have "4 * norm_inf e5 \<le> norm_inf e4" using p r by (intro rate_ge_two) simp_all
    ultimately show False using e0(3) e5(2) by linarith
  qed
qed

end
